theory Spec2Isabelle
  imports Complex_Main "HOL-Library.Log_Nat"
begin

section \<open>Python values used by the client\<close>

text \<open>
  A Python \<open>str\<close> is a sequence of Unicode code points; the literals of the source
  (most of them Chinese) are written as their code points. A \<open>pathlib.Path\<close> is taken
  with the attributes the code reads: \<open>str(p)\<close>, \<open>p.name\<close> and \<open>p.suffix\<close>.
\<close>

type_synonym pystr = "nat list"

record path =
  path_str :: pystr
  name :: pystr
  suffix :: pystr

subsection \<open>Binary64 floating point\<close>

text \<open>
  A Python \<open>float\<close> is an IEEE 754 binary64 number: a sign (\<open>True\<close> for negative) with a
  magnitude, which is a rational number for a finite float (the zeros are \<open>Finite s 0\<close>),
  an infinity, or a NaN. The finite floats are the values \<open>Finite s m\<close> whose magnitude
  \<open>m \<ge> 0\<close> is left as it is by the rounding \<open>round_mag\<close> below; every operation rounds
  its result, so it gives a float.
\<close>

datatype f64 = Finite bool rat | Infinite bool | NaN

text \<open>\<open>floor_log2 x\<close> is the exponent \<open>e\<close> with \<open>2 powi e \<le> x < 2 powi (e + 1)\<close>, for
  \<open>x > 0\<close>.\<close>

definition floor_log2 :: "rat \<Rightarrow> int" where
  "floor_log2 x = (if 1 \<le> x then bitlen \<lfloor>x\<rfloor> - 1 else - bitlen (\<lceil>1 / x\<rceil> - 1))"

text \<open>Rounding to the nearest integer, a tie going to the even one.\<close>

definition round_half_even :: "rat \<Rightarrow> int" where
  "round_half_even t =
     (let n = \<lfloor>t\<rfloor>; r = t - of_int n in
      if r < 1 / 2 then n else if 1 / 2 < r then n + 1 else if even n then n else n + 1)"

text \<open>
  The magnitude \<open>x \<ge> 0\<close> rounded to binary64, to nearest and ties to even: 53
  significant bits from the leading bit of \<open>x\<close>, but no bit below \<open>2 powi (- 1074)\<close>
  (subnormal numbers, and underflow to zero); \<open>None\<close> when the rounded magnitude
  reaches \<open>2 powi 1024\<close> (overflow).
\<close>

definition round_mag :: "rat \<Rightarrow> rat option" where
  "round_mag x =
     (if x = 0 then Some 0
      else
        let e = max (floor_log2 x) (- 1022);
            q = 2 powi (e - 52);
            y = of_int (round_half_even (x / q)) * q
        in if y < 2 powi 1024 then Some y else None)"

text \<open>The result of a float operation whose exact value has sign \<open>s\<close> and magnitude
  \<open>x\<close>: an overflow gives an infinity, and raises nothing.\<close>

definition round_f64 :: "bool \<Rightarrow> rat \<Rightarrow> f64" where
  "round_f64 s x = (case round_mag x of Some y \<Rightarrow> Finite s y | None \<Rightarrow> Infinite s)"

definition f64_val :: "bool \<Rightarrow> rat \<Rightarrow> rat" where
  "f64_val s m = (if s then - m else m)"

fun f64_neg :: "f64 \<Rightarrow> f64" where
  "f64_neg (Finite s m) = Finite (\<not> s) m"
| "f64_neg (Infinite s) = Infinite (\<not> s)"
| "f64_neg NaN = NaN"

text \<open>An exact sum of zero is \<open>+0.0\<close>, unless both operands are \<open>-0.0\<close>.\<close>

fun f64_add :: "f64 \<Rightarrow> f64 \<Rightarrow> f64" where
  "f64_add (Finite s a) (Finite t b) =
     (let x = f64_val s a + f64_val t b in
      if x = 0 then Finite (s \<and> t) 0 else round_f64 (x < 0) \<bar>x\<bar>)"
| "f64_add (Finite s a) (Infinite t) = Infinite t"
| "f64_add (Infinite s) (Finite t b) = Infinite s"
| "f64_add (Infinite s) (Infinite t) = (if s = t then Infinite s else NaN)"
| "f64_add NaN y = NaN"
| "f64_add x NaN = NaN"

definition f64_sub :: "f64 \<Rightarrow> f64 \<Rightarrow> f64" where
  "f64_sub x y = f64_add x (f64_neg y)"

fun f64_mul :: "f64 \<Rightarrow> f64 \<Rightarrow> f64" where
  "f64_mul (Finite s a) (Finite t b) = round_f64 (s \<noteq> t) (a * b)"
| "f64_mul (Finite s a) (Infinite t) = (if a = 0 then NaN else Infinite (s \<noteq> t))"
| "f64_mul (Infinite s) (Finite t b) = (if b = 0 then NaN else Infinite (s \<noteq> t))"
| "f64_mul (Infinite s) (Infinite t) = Infinite (s \<noteq> t)"
| "f64_mul NaN y = NaN"
| "f64_mul x NaN = NaN"

text \<open>Division by a divisor that is not zero (Python tests for a zero divisor before it
  divides).\<close>

fun f64_div :: "f64 \<Rightarrow> f64 \<Rightarrow> f64" where
  "f64_div (Finite s a) (Finite t b) = round_f64 (s \<noteq> t) (a / b)"
| "f64_div (Finite s a) (Infinite t) = Finite (s \<noteq> t) 0"
| "f64_div (Infinite s) (Finite t b) = Infinite (s \<noteq> t)"
| "f64_div (Infinite s) (Infinite t) = NaN"
| "f64_div NaN y = NaN"
| "f64_div x NaN = NaN"

fun f64_is_zero :: "f64 \<Rightarrow> bool" where
  "f64_is_zero (Finite s m) = (m = 0)"
| "f64_is_zero (Infinite s) = False"
| "f64_is_zero NaN = False"

fun f64_gt_zero :: "f64 \<Rightarrow> bool" where
  "f64_gt_zero (Finite s m) = (0 < f64_val s m)"
| "f64_gt_zero (Infinite s) = (\<not> s)"
| "f64_gt_zero NaN = False"

subsection \<open>JSON values, exceptions and the numeric operators\<close>

text \<open>
  What \<open>response.json()\<close> returns: \<open>None\<close>, a \<open>bool\<close>, an \<open>int\<close> (unbounded), a
  \<open>float\<close>, a \<open>str\<close>, a list or a dict.
\<close>

datatype json =
  JNull
| JBool bool
| JInt int
| JFloat f64
| JStr pystr
| JList "json list"
| JObj "(pystr \<times> json) list"

text \<open>
  Exceptions (instances of Python's \<open>Exception\<close>): the built-in errors the worker's own
  statements can raise, and \<open>Raised m\<close> for whatever a library call raised, \<open>m\<close> being
  its \<open>str(e)\<close>.
\<close>

datatype exc = AttributeError | TypeError | ZeroDivisionError | OverflowError | Raised pystr

text \<open>
  Python's own string conversions are parameters of the model: \<open>str(e)\<close> of an exception,
  the text an f-string gives a JSON value, and the fixed-point format \<open>{x:.Nf}\<close> of a
  float.
\<close>

record pylib =
  str_exc :: "exc \<Rightarrow> pystr"
  str_json :: "json \<Rightarrow> pystr"
  fmt_fixed :: "nat \<Rightarrow> f64 \<Rightarrow> pystr"

text \<open>\<open>d.get(k, default)\<close>: only a dict has the method.\<close>

definition dict_get :: "json \<Rightarrow> pystr \<Rightarrow> json \<Rightarrow> exc + json" where
  "dict_get d k dflt =
     (case d of
        JObj kvs \<Rightarrow> Inr (case map_of kvs k of Some v \<Rightarrow> v | None \<Rightarrow> dflt)
      | _ \<Rightarrow> Inl AttributeError)"

text \<open>A number is an \<open>int\<close> or a \<open>float\<close>. \<open>as_num\<close> is the operand of \<open>>\<close>, \<open>-\<close> or
  \<open>/\<close> against a number (\<open>bool\<close> is an \<open>int\<close>); an operand of another type raises
  \<open>TypeError\<close>.\<close>

datatype pynum = PInt int | PFloat f64

definition as_num :: "json \<Rightarrow> exc + pynum" where
  "as_num v =
     (case v of
        JInt n \<Rightarrow> Inr (PInt n)
      | JBool b \<Rightarrow> Inr (PInt (if b then 1 else 0))
      | JFloat f \<Rightarrow> Inr (PFloat f)
      | _ \<Rightarrow> Inl TypeError)"

text \<open>The conversion of an \<open>int\<close> operand to \<open>float\<close> is correctly rounded, and raises
  \<open>OverflowError\<close> when the \<open>int\<close> is too large.\<close>

definition int_to_float :: "int \<Rightarrow> exc + f64" where
  "int_to_float n =
     (case round_mag \<bar>of_int n\<bar> of
        Some y \<Rightarrow> Inr (Finite (n < 0) y)
      | None \<Rightarrow> Inl OverflowError)"

definition to_float :: "pynum \<Rightarrow> exc + f64" where
  "to_float x = (case x of PInt n \<Rightarrow> int_to_float n | PFloat f \<Rightarrow> Inr f)"

text \<open>\<open>int / int\<close>: the exact quotient, correctly rounded to a \<open>float\<close>; \<open>OverflowError\<close>
  when it is too large for a \<open>float\<close>, and a zero of the quotient's sign when it is too
  small.\<close>

definition int_truediv :: "int \<Rightarrow> int \<Rightarrow> exc + f64" where
  "int_truediv a b =
     (if b = 0 then Inl ZeroDivisionError
      else
        (case round_mag \<bar>of_int a / of_int b\<bar> of
           Some y \<Rightarrow> Inr (Finite ((a < 0) \<noteq> (b < 0)) y)
         | None \<Rightarrow> Inl OverflowError))"

text \<open>\<open>x > 0\<close>, \<open>x - y\<close>, \<open>x / y\<close> on numbers, and \<open>x * n\<close> for a \<open>float\<close> and an
  \<open>int\<close>. With a \<open>float\<close> operand, the other operand is converted to \<open>float\<close> first.\<close>

definition py_gt_zero :: "pynum \<Rightarrow> bool" where
  "py_gt_zero x = (case x of PInt n \<Rightarrow> 0 < n | PFloat f \<Rightarrow> f64_gt_zero f)"

definition py_sub :: "pynum \<Rightarrow> pynum \<Rightarrow> exc + pynum" where
  "py_sub x y =
     (case (x, y) of
        (PInt a, PInt b) \<Rightarrow> Inr (PInt (a - b))
      | _ \<Rightarrow>
          (case to_float x of
             Inl e \<Rightarrow> Inl e
           | Inr a \<Rightarrow>
               (case to_float y of
                  Inl e \<Rightarrow> Inl e
                | Inr b \<Rightarrow> Inr (PFloat (f64_sub a b)))))"

definition py_truediv :: "pynum \<Rightarrow> pynum \<Rightarrow> exc + f64" where
  "py_truediv x y =
     (case (x, y) of
        (PInt a, PInt b) \<Rightarrow> int_truediv a b
      | _ \<Rightarrow>
          (case to_float x of
             Inl e \<Rightarrow> Inl e
           | Inr a \<Rightarrow>
               (case to_float y of
                  Inl e \<Rightarrow> Inl e
                | Inr b \<Rightarrow>
                    if f64_is_zero b then Inl ZeroDivisionError else Inr (f64_div a b))))"

definition py_mul :: "f64 \<Rightarrow> int \<Rightarrow> exc + f64" where
  "py_mul x n = (case int_to_float n of Inl e \<Rightarrow> Inl e | Inr y \<Rightarrow> Inr (f64_mul x y))"

section \<open>metadata/meter\_data.py\<close>

datatype DataType = EXCEL | IMAGE

record MeterData =
  data_type :: DataType
  file_path :: path
  description :: pystr
  file_size :: nat

definition is_excel :: "MeterData \<Rightarrow> bool" where
  "is_excel md = (data_type md = EXCEL)"

definition is_image :: "MeterData \<Rightarrow> bool" where
  "is_image md = (data_type md = IMAGE)"

section \<open>main.py: UploadWorker\<close>

text \<open>The two signals of a worker: \<open>progress(file_name, percent)\<close> and
  \<open>finished(file_name, success, message)\<close>.\<close>

datatype signal = Progress pystr int | Finished pystr bool pystr

text \<open>Line 59: the guard \<open>original_size > 0\<close> is evaluated first; under it the
  difference, the quotient (a \<open>float\<close>) and its product with 100 (a \<open>float\<close>); otherwise
  the \<open>int\<close> 0.\<close>

definition compression_ratio :: "json \<Rightarrow> json \<Rightarrow> exc + pynum" where
  "compression_ratio original_size compressed_size =
     (case as_num original_size of
        Inl e \<Rightarrow> Inl e
      | Inr original \<Rightarrow>
          if py_gt_zero original then
            (case as_num compressed_size of
               Inl e \<Rightarrow> Inl e
             | Inr compressed \<Rightarrow>
                 (case py_sub original compressed of
                    Inl e \<Rightarrow> Inl e
                  | Inr d \<Rightarrow>
                      (case py_truediv d original of
                         Inl e \<Rightarrow> Inl e
                       | Inr q \<Rightarrow>
                           (case py_mul q 100 of
                              Inl e \<Rightarrow> Inl e
                            | Inr r \<Rightarrow> Inr (PFloat r)))))
          else Inr (PInt 0))"

text \<open>The literals of lines 61 to 75, as code points.\<close>

definition msg_upload_ok :: pystr where
  "msg_upload_ok = [19978, 20256, 25104, 21151, 65281, 25991, 20214, 73, 68, 58, 32]"

definition msg_size_before :: pystr where
  "msg_size_before = [21407, 22987, 22823, 23567, 58, 32]"

definition msg_size_after :: pystr where
  "msg_size_after = [21387, 32553, 21518, 58, 32]"

definition msg_ratio :: pystr where
  "msg_ratio = [21387, 32553, 29575, 58, 32]"

definition msg_upload_failed :: pystr where
  "msg_upload_failed = [19978, 20256, 22833, 36133, 58, 32]"

text \<open>Lines 57 to 69: the message of a successful upload, or the exception one of these
  statements raises on a malformed reply. The keys are \<open>'original_size'\<close>,
  \<open>'compressed_size'\<close> and \<open>'file_id'\<close>; \<open>[77, 66, 10]\<close> is \<open>"MB\n"\<close> and \<open>[37]\<close> is \<open>"%"\<close>.\<close>

definition key_original_size :: pystr where
  "key_original_size = [111, 114, 105, 103, 105, 110, 97, 108, 95, 115, 105, 122, 101]"

definition key_compressed_size :: pystr where
  "key_compressed_size = [99, 111, 109, 112, 114, 101, 115, 115, 101, 100, 95, 115, 105, 122, 101]"

definition key_file_id :: pystr where
  "key_file_id = [102, 105, 108, 101, 95, 105, 100]"

definition success_message :: "pylib \<Rightarrow> MeterData \<Rightarrow> json \<Rightarrow> exc + pystr" where
  "success_message py md result =
     (case dict_get result key_original_size (JInt 0) of
        Inl e \<Rightarrow> Inl e
      | Inr original_size \<Rightarrow>
     (case dict_get result key_compressed_size (JInt 0) of
        Inl e \<Rightarrow> Inl e
      | Inr compressed_size \<Rightarrow>
     (case compression_ratio original_size compressed_size of
        Inl e \<Rightarrow> Inl e
      | Inr ratio \<Rightarrow>
     (case dict_get result key_file_id JNull of
        Inl e \<Rightarrow> Inl e
      | Inr file_id \<Rightarrow>
          let message = msg_upload_ok @ str_json py file_id @ [10] in
          if is_image md \<and> py_gt_zero ratio then
            (case as_num original_size of
               Inl e \<Rightarrow> Inl e
             | Inr original \<Rightarrow>
            (case py_truediv original (PInt (1024 * 1024)) of
               Inl e \<Rightarrow> Inl e
             | Inr size_mb_before \<Rightarrow>
            (case as_num compressed_size of
               Inl e \<Rightarrow> Inl e
             | Inr compressed \<Rightarrow>
            (case py_truediv compressed (PInt (1024 * 1024)) of
               Inl e \<Rightarrow> Inl e
             | Inr size_mb_after \<Rightarrow>
            (case to_float ratio of
               Inl e \<Rightarrow> Inl e
             | Inr ratio_float \<Rightarrow>
                 Inr (message
                      @ msg_size_before @ fmt_fixed py 2 size_mb_before @ [77, 66, 10]
                      @ msg_size_after @ fmt_fixed py 2 size_mb_after @ [77, 66, 10]
                      @ msg_ratio @ fmt_fixed py 1 ratio_float @ [37]))))))
          else Inr message))))"

text \<open>
  \<open>run\<close>, lines 41 to 75. The first component of \<open>run_try\<close> is the list of signals the
  \<open>try\<close> block emitted, the second the exception that ended it, if any. \<open>run\<close> adds
  what the \<open>except Exception\<close> handler emits; it returns the signals of the whole call.
\<close>

definition run_try :: "pylib \<Rightarrow> MeterData \<Rightarrow> exc + json \<Rightarrow> signal list \<times> (exc + unit)" where
  "run_try py md upload_file =
     (let file_name = name (file_path md) in
      case upload_file of
        Inl e \<Rightarrow> ([Progress file_name 30], Inl e)
      | Inr result \<Rightarrow>
          (case success_message py md result of
             Inl e \<Rightarrow> ([Progress file_name 30, Progress file_name 100], Inl e)
           | Inr message \<Rightarrow>
               ([Progress file_name 30, Progress file_name 100,
                 Finished file_name True message], Inr ())))"

definition run :: "pylib \<Rightarrow> MeterData \<Rightarrow> exc + json \<Rightarrow> signal list" where
  "run py md upload_file =
     (let file_name = name (file_path md) in
      case run_try py md upload_file of
        (signals, Inr _) \<Rightarrow> signals
      | (signals, Inl e) \<Rightarrow>
          signals @ [Progress file_name 0,
                     Finished file_name False (msg_upload_failed @ str_exc py e)])"

text \<open>The terminal results among the signals of a run.\<close>

fun results :: "signal list \<Rightarrow> (pystr \<times> bool \<times> pystr) list" where
  "results [] = []"
| "results (Progress f n # ss) = results ss"
| "results (Finished f ok m # ss) = (f, ok, m) # results ss"

section \<open>metadata/meter\_data.py: MeterDataManager\<close>

text \<open>\<open>str.lower()\<close> on the ASCII letters. Other code points are left as they are; no
  code point outside ASCII lowers to a letter of the extensions below, so membership in
  the extension sets is decided as Python decides it.\<close>

definition py_lower :: "pystr \<Rightarrow> pystr" where
  "py_lower s = map (\<lambda>c. if 65 \<le> c \<and> c \<le> 90 then c + 32 else c) s"

text \<open>\<open>{'.xlsx', '.xls'}\<close> and \<open>{'.jpg', '.jpeg', '.png', '.bmp'}\<close>.\<close>

definition EXCEL_EXTENSIONS :: "pystr list" where
  "EXCEL_EXTENSIONS = [[46, 120, 108, 115, 120], [46, 120, 108, 115]]"

definition IMAGE_EXTENSIONS :: "pystr list" where
  "IMAGE_EXTENSIONS =
     [[46, 106, 112, 103], [46, 106, 112, 101, 103], [46, 112, 110, 103], [46, 98, 109, 112]]"

definition detect_data_type :: "path \<Rightarrow> DataType option" where
  "detect_data_type fp =
     (let ext = py_lower (suffix fp) in
      if ext \<in> set EXCEL_EXTENSIONS then Some EXCEL
      else if ext \<in> set IMAGE_EXTENSIONS then Some IMAGE
      else None)"

text \<open>
  The file system is a parameter: \<open>fs p = None\<close> when \<open>p.exists()\<close> is false, and
  \<open>Some n\<close> when the file exists with \<open>st_size\<close> \<open>n\<close>. \<open>add_meter_data\<close>, the
  only caller, always passes a description, so the branch for \<open>description is None\<close> is
  not reached and is left out. The timestamp of a \<open>MeterData\<close> is never read.
\<close>

definition create_meter_data :: "(path \<Rightarrow> nat option) \<Rightarrow> path \<Rightarrow> pystr \<Rightarrow> MeterData option" where
  "create_meter_data fs fp descr =
     (case fs fp of
        None \<Rightarrow> None
      | Some sz \<Rightarrow>
          (case detect_data_type fp of
             None \<Rightarrow> None
           | Some dt \<Rightarrow>
               Some \<lparr>data_type = dt, file_path = fp, description = descr, file_size = sz\<rparr>))"

section \<open>main.py: MeterDataListItem\<close>

text \<open>
  One row of the list: the \<open>uploaded\<close> flag, the check box (\<open>checkbox.isChecked()\<close>), the
  text of the status label and the progress bar. The colour of the status label is not
  kept: nothing reads it.
\<close>

record MeterDataListItem =
  meter_data :: MeterData
  uploaded :: bool
  checkbox :: bool
  status_label :: pystr
  progress_visible :: bool
  progress_value :: int

text \<open>The four texts a status label takes, and the three that
  \<open>check_all_uploads_finished\<close> looks for.\<close>

definition status_waiting :: pystr where
  "status_waiting = [31561, 24453, 19978, 20256]"

definition status_uploading :: pystr where
  "status_uploading = [19978, 20256, 20013, 46, 46, 46]"

definition status_success :: pystr where
  "status_success = [10003, 32, 25104, 21151]"

definition status_failed :: pystr where
  "status_failed = [10007, 32, 22833, 36133]"

definition word_uploading :: pystr where
  "word_uploading = [19978, 20256, 20013]"

definition word_success :: pystr where
  "word_success = [25104, 21151]"

definition word_failed :: pystr where
  "word_failed = [22833, 36133]"

text \<open>\<open>__init__\<close> and \<open>init_ui\<close>: checked by default, waiting, the bar hidden (a fresh
  \<open>QProgressBar\<close> has the value \<open>-1\<close>).\<close>

definition new_item :: "MeterData \<Rightarrow> MeterDataListItem" where
  "new_item md =
     \<lparr>meter_data = md, uploaded = False, checkbox = True, status_label = status_waiting,
      progress_visible = False, progress_value = - 1\<rparr>"

definition set_status :: "pystr \<Rightarrow> MeterDataListItem \<Rightarrow> MeterDataListItem" where
  "set_status status it = it\<lparr>status_label := status\<rparr>"

definition set_uploaded :: "bool \<Rightarrow> MeterDataListItem \<Rightarrow> MeterDataListItem" where
  "set_uploaded up it =
     (let it1 = it\<lparr>uploaded := up\<rparr> in
      if up then it1\<lparr>checkbox := False\<rparr> else it1)"

definition is_selected :: "MeterDataListItem \<Rightarrow> bool" where
  "is_selected it = (checkbox it \<and> \<not> uploaded it)"

text \<open>\<open>set_progress\<close>, lines 157 to 163. The bar keeps its default range 0 to 100, and
  \<open>QProgressBar.setValue\<close> leaves the value as it is when the new one is outside the
  range.\<close>

definition set_progress :: "int \<Rightarrow> MeterDataListItem \<Rightarrow> MeterDataListItem" where
  "set_progress v it =
     (if v > 0 then
        it\<lparr>progress_visible := True,
           progress_value := (if v \<le> 100 then v else progress_value it)\<rparr>
      else it\<lparr>progress_visible := False\<rparr>)"

text \<open>Python's \<open>sub in s\<close> on strings.\<close>

fun py_in :: "pystr \<Rightarrow> pystr \<Rightarrow> bool" where
  "py_in sub [] = (sub = [])"
| "py_in sub (c # cs) = (take (length sub) (c # cs) = sub \<or> py_in sub cs)"

section \<open>api: the clients the window creates\<close>

text \<open>\<open>s.rstrip('/')\<close> and \<open>s.strip()\<close>; \<open>is_space\<close> lists the code points for which
  \<open>str.isspace()\<close> holds.\<close>

definition rstrip_slash :: "pystr \<Rightarrow> pystr" where
  "rstrip_slash s = rev (dropWhile (\<lambda>c. c = 47) (rev s))"

definition is_space :: "nat \<Rightarrow> bool" where
  "is_space c =
     (c \<in> set [9, 10, 11, 12, 13, 28, 29, 30, 31, 32, 133, 160, 5760, 8192, 8193, 8194,
                8195, 8196, 8197, 8198, 8199, 8200, 8201, 8202, 8232, 8233, 8239, 8287, 12288])"

definition py_strip :: "pystr \<Rightarrow> pystr" where
  "py_strip s = rev (dropWhile is_space (rev (dropWhile is_space s)))"

record APIClient =
  base_url :: pystr
  timeout :: nat

definition new_APIClient :: "pystr \<Rightarrow> APIClient" where
  "new_APIClient url = \<lparr>base_url = rstrip_slash url, timeout = 30\<rparr>"

text \<open>\<open>LowerLongPollingClient.__init__\<close> (api/long\_polling\_client.py, lines 16 to 35).\<close>

record LowerLongPollingClient =
  server_url :: pystr
  device_id :: pystr
  hardware_key :: pystr
  connected :: bool
  running :: bool
  heartbeat_interval :: nat
  retry_interval :: nat

definition new_LowerLongPollingClient :: "pystr \<Rightarrow> pystr \<Rightarrow> pystr \<Rightarrow> LowerLongPollingClient" where
  "new_LowerLongPollingClient url did hk =
     \<lparr>server_url = rstrip_slash url, device_id = did, hardware_key = hk,
      connected = False, running = False, heartbeat_interval = 30, retry_interval = 5\<rparr>"

section \<open>config/config.py\<close>



section \<open>main.py: LowerComputerWindow\<close>

text \<open>
  Every \<open>self.log(...)\<close> call is one entry, tagged by its format string and holding the
  values it interpolates; every \<open>QMessageBox\<close> is one entry of \<open>dialogs\<close>. The answer to
  a question box is an input of the operation that asks it.
\<close>

datatype log_entry =
  LogAlreadyInList pystr
| LogCreateFailed pystr
| LogAdded DataType pystr nat
| LogRemoved nat
| LogCleared
| LogSelectedAll
| LogDeselectedAll
| LogUploadStart nat
| LogExcelCount nat
| LogImageCount nat
| LogStopped
| LogUploadOk pystr pystr
| LogUploadFail pystr pystr
| LogUploadDone nat nat
| LogConnected json
| LogConnectFailed exc
| LogStartingHeartbeat
| LogStartingWebSocket

datatype dialog =
  DlgFillRequired
| DlgConnected
| DlgConnectFailed exc
| DlgSelectToRemove
| DlgNotConnected
| DlgNoData
| DlgNoSelection
| DlgUploadDone nat nat

datatype status_bar = NotConnected | ConnectedLongPolling | ConnectedWebSocket | ConnectFailed

datatype connection_mode = long_polling | websocket

text \<open>What the window asks of its \<open>QThreadPool\<close>: \<open>start(worker)\<close>, with the arguments
  the worker was built from, and \<open>clear()\<close>.\<close>

datatype pool_call = PoolStart pystr pystr MeterData | PoolClear

text \<open>
  The window. \<open>data_items\<close> is the dict from \<open>str(file_path)\<close> to the row, in insertion
  order (the order \<open>values()\<close> and \<open>items()\<close> iterate in); the rows of the list widget
  are the same rows and are not kept a second time. \<open>cfg_device_id\<close> and
  \<open>cfg_hardware_key\<close> are \<open>lower_config.device_id\<close> and \<open>lower_config.hardware_key\<close>.
  The buttons are their enabled flags. A started thread is the client it runs.
\<close>

record LowerComputerWindow =
  client :: "APIClient option"
  ws_thread :: "(pystr \<times> pystr \<times> pystr) option"
  long_polling_thread :: "LowerLongPollingClient option"
  connection_mode :: connection_mode
  authenticated :: bool
  data_items :: "(pystr \<times> MeterDataListItem) list"
  thread_pool :: "pool_call list"
  server_input :: pystr
  device_id_input :: pystr
  cfg_device_id :: pystr
  cfg_hardware_key :: pystr
  add_excel_btn :: bool
  add_image_btn :: bool
  select_all_btn :: bool
  deselect_all_btn :: bool
  remove_file_btn :: bool
  clear_files_btn :: bool
  upload_btn :: bool
  stop_upload_btn :: bool
  excel_count_label :: nat
  image_count_label :: nat
  status_bar :: status_bar
  log_text :: "log_entry list"
  dialogs :: "dialog list"

text \<open>\<open>__init__\<close>, \<open>init_ui\<close> and \<open>load_config\<close>: the texts of the two inputs and the key
  come from the configuration file.\<close>

definition init_window :: "pystr \<Rightarrow> pystr \<Rightarrow> pystr \<Rightarrow> LowerComputerWindow" where
  "init_window cfg_server_url cfg_did cfg_hk =
     \<lparr>client = None, ws_thread = None, long_polling_thread = None,
      connection_mode = long_polling, authenticated = False, data_items = [],
      thread_pool = [], server_input = cfg_server_url, device_id_input = cfg_did,
      cfg_device_id = cfg_did, cfg_hardware_key = cfg_hk,
      add_excel_btn = False, add_image_btn = False, select_all_btn = False,
      deselect_all_btn = False, remove_file_btn = False, clear_files_btn = False,
      upload_btn = False, stop_upload_btn = False,
      excel_count_label = 0, image_count_label = 0, status_bar = NotConnected,
      log_text = [], dialogs = []\<rparr>"

definition log_msg :: "log_entry \<Rightarrow> LowerComputerWindow \<Rightarrow> LowerComputerWindow" where
  "log_msg m w = w\<lparr>log_text := log_text w @ [m]\<rparr>"

definition show_dialog :: "dialog \<Rightarrow> LowerComputerWindow \<Rightarrow> LowerComputerWindow" where
  "show_dialog d w = w\<lparr>dialogs := dialogs w @ [d]\<rparr>"

text \<open>\<open>connect_to_server\<close>, lines 476 to 545. Its argument is what
  \<open>client.authenticate_device\<close> does: raise, or return the reply. \<open>key_message\<close> is
  \<open>'message'\<close>.\<close>

definition key_message :: pystr where
  "key_message = [109, 101, 115, 115, 97, 103, 101]"

definition connect_failed :: "exc \<Rightarrow> LowerComputerWindow \<Rightarrow> LowerComputerWindow" where
  "connect_failed e w =
     show_dialog (DlgConnectFailed e)
       ((log_msg (LogConnectFailed e) (w\<lparr>authenticated := False\<rparr>))\<lparr>status_bar := ConnectFailed\<rparr>)"

definition connect_to_server :: "exc + json \<Rightarrow> LowerComputerWindow \<Rightarrow> LowerComputerWindow" where
  "connect_to_server authenticate_device w =
     (let url = py_strip (server_input w);
          did = py_strip (device_id_input w);
          hk = cfg_hardware_key w in
      if url = [] \<or> did = [] \<or> hk = [] then show_dialog DlgFillRequired w
      else
        let w1 = w\<lparr>client := Some (new_APIClient url)\<rparr> in
        case authenticate_device of
          Inl e \<Rightarrow> connect_failed e w1
        | Inr result \<Rightarrow>
            let w2 = w1\<lparr>authenticated := True\<rparr> in
            (case dict_get result key_message JNull of
               Inl e \<Rightarrow> connect_failed e w2
             | Inr message \<Rightarrow>
                 let w3 = log_msg (LogConnected message) w2;
                     w4 = (if connection_mode w3 = long_polling then
                             (log_msg LogStartingHeartbeat
                                (w3\<lparr>long_polling_thread :=
                                      Some (new_LowerLongPollingClient url did hk)\<rparr>))
                               \<lparr>status_bar := ConnectedLongPolling\<rparr>
                           else
                             (log_msg LogStartingWebSocket
                                (w3\<lparr>ws_thread := Some (url, did, hk)\<rparr>))
                               \<lparr>status_bar := ConnectedWebSocket\<rparr>)
                 in show_dialog DlgConnected
                      (w4\<lparr>add_excel_btn := True, add_image_btn := True,
                          remove_file_btn := True, clear_files_btn := True\<rparr>)))"


subsection \<open>The work queue\<close>

text \<open>\<open>update_data_count\<close>, lines 675 to 686.\<close>

definition update_data_count :: "LowerComputerWindow \<Rightarrow> LowerComputerWindow" where
  "update_data_count w =
     (let excel_count = length (filter (\<lambda>(k, it). is_excel (meter_data it)) (data_items w));
          image_count = length (filter (\<lambda>(k, it). is_image (meter_data it)) (data_items w));
          total = excel_count + image_count
      in w\<lparr>excel_count_label := excel_count, image_count_label := image_count,
            upload_btn := (total > 0 \<and> authenticated w),
            select_all_btn := (total > 0), deselect_all_btn := (total > 0)\<rparr>)"

text \<open>
  \<open>add_meter_data\<close>, lines 583 to 618. \<open>fs\<close> is the file system and \<open>descr\<close> what
  \<open>lower_config.get_excel_description()\<close> and \<open>get_image_description()\<close> return at
  the moment of the call. A new key goes to the end of the dict.
\<close>

definition add_meter_data ::
  "(path \<Rightarrow> nat option) \<Rightarrow> (DataType \<Rightarrow> pystr) \<Rightarrow> path \<Rightarrow> DataType \<Rightarrow>
   LowerComputerWindow \<Rightarrow> LowerComputerWindow" where
  "add_meter_data fs descr fp dt w =
     (if path_str fp \<in> set (map fst (data_items w)) then log_msg (LogAlreadyInList (name fp)) w
      else
        case create_meter_data fs fp (descr dt) of
          None \<Rightarrow> log_msg (LogCreateFailed (name fp)) w
        | Some md \<Rightarrow>
            log_msg (LogAdded dt (name fp) (file_size md))
              (update_data_count
                 (w\<lparr>data_items := data_items w @ [(path_str fp, new_item md)]\<rparr>)))"

text \<open>\<open>add_excel_files\<close> and \<open>add_image_files\<close>, lines 547 to 581, for the paths the
  file dialog returned (the directory remembered in the configuration is not kept).\<close>

definition add_excel_files ::
  "(path \<Rightarrow> nat option) \<Rightarrow> (DataType \<Rightarrow> pystr) \<Rightarrow> path list \<Rightarrow>
   LowerComputerWindow \<Rightarrow> LowerComputerWindow" where
  "add_excel_files fs descr file_paths w =
     foldl (\<lambda>w' fp. add_meter_data fs descr fp EXCEL w') w file_paths"

definition add_image_files ::
  "(path \<Rightarrow> nat option) \<Rightarrow> (DataType \<Rightarrow> pystr) \<Rightarrow> path list \<Rightarrow>
   LowerComputerWindow \<Rightarrow> LowerComputerWindow" where
  "add_image_files fs descr file_paths w =
     foldl (\<lambda>w' fp. add_meter_data fs descr fp IMAGE w') w file_paths"

text \<open>\<open>remove_selected_data\<close>, lines 620 to 641: \<open>selected\<close> are the highlighted rows of
  the list widget, each given by the key of its row.\<close>

definition remove_selected_data :: "pystr list \<Rightarrow> LowerComputerWindow \<Rightarrow> LowerComputerWindow" where
  "remove_selected_data selected w =
     (if selected = [] then show_dialog DlgSelectToRemove w
      else
        log_msg (LogRemoved (length selected))
          (update_data_count
             (w\<lparr>data_items := filter (\<lambda>(k, it). k \<notin> set selected) (data_items w)\<rparr>)))"

text \<open>\<open>clear_data_list\<close>, lines 643 to 657, with the operator's answer.\<close>

definition clear_data_list :: "bool \<Rightarrow> LowerComputerWindow \<Rightarrow> LowerComputerWindow" where
  "clear_data_list reply_yes w =
     (if data_items w \<noteq> [] \<and> reply_yes then
        log_msg LogCleared (update_data_count (w\<lparr>data_items := []\<rparr>))
      else w)"

text \<open>\<open>select_all_data\<close> and \<open>deselect_all_data\<close>, lines 659 to 673.\<close>

definition set_all_checked :: "bool \<Rightarrow> LowerComputerWindow \<Rightarrow> LowerComputerWindow" where
  "set_all_checked b w =
     w\<lparr>data_items :=
         map (\<lambda>(k, it). (k, if \<not> uploaded it then it\<lparr>checkbox := b\<rparr> else it)) (data_items w)\<rparr>"

definition select_all_data :: "LowerComputerWindow \<Rightarrow> LowerComputerWindow" where
  "select_all_data w = log_msg LogSelectedAll (set_all_checked True w)"

definition deselect_all_data :: "LowerComputerWindow \<Rightarrow> LowerComputerWindow" where
  "deselect_all_data w = log_msg LogDeselectedAll (set_all_checked False w)"

text \<open>The operator clicks the check box of the row with key \<open>k\<close>: the box is never
  disabled (line 151 is commented out), so it takes the new state.\<close>

definition toggle_checkbox :: "pystr \<Rightarrow> bool \<Rightarrow> LowerComputerWindow \<Rightarrow> LowerComputerWindow" where
  "toggle_checkbox k b w =
     w\<lparr>data_items :=
         map (\<lambda>(k', it). (k', if k' = k then it\<lparr>checkbox := b\<rparr> else it)) (data_items w)\<rparr>"

subsection \<open>Uploading\<close>

text \<open>The rows \<open>upload_data\<close> submits (lines 699 to 702).\<close>

definition selected_items :: "LowerComputerWindow \<Rightarrow> (pystr \<times> MeterDataListItem) list" where
  "selected_items w = filter (\<lambda>(k, it). is_selected it) (data_items w)"

text \<open>\<open>upload_data\<close>, lines 688 to 743: every selected row is marked as uploading and its
  worker handed to the pool.\<close>

definition upload_data :: "LowerComputerWindow \<Rightarrow> LowerComputerWindow" where
  "upload_data w =
     (if \<not> authenticated w then show_dialog DlgNotConnected w
      else if data_items w = [] then show_dialog DlgNoData w
      else if selected_items w = [] then show_dialog DlgNoSelection w
      else
        let sel = selected_items w;
            excel_count = length (filter (\<lambda>(k, it). is_excel (meter_data it)) sel);
            image_count = length sel - excel_count;
            w1 = w\<lparr>upload_btn := False, stop_upload_btn := True,
                   add_excel_btn := False, add_image_btn := False\<rparr>;
            w2 = log_msg (LogImageCount image_count)
                   (log_msg (LogExcelCount excel_count) (log_msg (LogUploadStart (length sel)) w1))
        in w2\<lparr>data_items :=
                 map (\<lambda>(k, it). (k, if is_selected it
                                     then set_progress 0 (set_status status_uploading it) else it))
                   (data_items w2),
               thread_pool :=
                 thread_pool w2
                 @ map (\<lambda>(k, it). PoolStart (cfg_device_id w2) (cfg_hardware_key w2) (meter_data it))
                     sel\<rparr>)"

text \<open>\<open>restore_upload_buttons\<close>, lines 810 to 815, and \<open>stop_upload\<close>, lines 745 to 757.\<close>

definition restore_upload_buttons :: "LowerComputerWindow \<Rightarrow> LowerComputerWindow" where
  "restore_upload_buttons w =
     w\<lparr>upload_btn := True, stop_upload_btn := False, add_excel_btn := True, add_image_btn := True\<rparr>"

definition stop_upload :: "bool \<Rightarrow> LowerComputerWindow \<Rightarrow> LowerComputerWindow" where
  "stop_upload reply_yes w =
     (if reply_yes then
        restore_upload_buttons (log_msg LogStopped (w\<lparr>thread_pool := thread_pool w @ [PoolClear]\<rparr>))
      else w)"

text \<open>A loop that changes the first row whose file name matches and then breaks.\<close>

fun update_first ::
  "(MeterDataListItem \<Rightarrow> bool) \<Rightarrow> (MeterDataListItem \<Rightarrow> MeterDataListItem) \<Rightarrow>
   (pystr \<times> MeterDataListItem) list \<Rightarrow> (pystr \<times> MeterDataListItem) list" where
  "update_first P f [] = []"
| "update_first P f ((k, it) # rest) =
     (if P it then (k, f it) # rest else (k, it) # update_first P f rest)"

definition has_name :: "pystr \<Rightarrow> MeterDataListItem \<Rightarrow> bool" where
  "has_name file_name it = (name (file_path (meter_data it)) = file_name)"

text \<open>\<open>on_upload_progress\<close>, lines 759 to 765.\<close>

definition on_upload_progress :: "pystr \<Rightarrow> int \<Rightarrow> LowerComputerWindow \<Rightarrow> LowerComputerWindow" where
  "on_upload_progress file_name progress w =
     w\<lparr>data_items := update_first (has_name file_name) (set_progress progress) (data_items w)\<rparr>"

text \<open>
  \<open>check_all_uploads_finished\<close>, lines 787 to 808. \<open>scan_status\<close> is one round of the
  loop over all rows of the dict, on \<open>(all_finished, success_count, fail_count)\<close>.
\<close>

definition scan_status :: "bool \<times> nat \<times> nat \<Rightarrow> pystr \<Rightarrow> bool \<times> nat \<times> nat" where
  "scan_status acc status =
     (case acc of (all_finished, success_count, fail_count) \<Rightarrow>
        if py_in word_uploading status then (False, success_count, fail_count)
        else if py_in word_success status then (all_finished, success_count + 1, fail_count)
        else if py_in word_failed status then (all_finished, success_count, fail_count + 1)
        else acc)"

definition count_statuses :: "LowerComputerWindow \<Rightarrow> bool \<times> nat \<times> nat" where
  "count_statuses w =
     foldl scan_status (True, 0, 0) (map (\<lambda>(k, it). status_label it) (data_items w))"

definition check_all_uploads_finished :: "LowerComputerWindow \<Rightarrow> LowerComputerWindow" where
  "check_all_uploads_finished w =
     (case count_statuses w of (all_finished, success_count, fail_count) \<Rightarrow>
        if all_finished \<and> (success_count > 0 \<or> fail_count > 0) then
          show_dialog (DlgUploadDone success_count fail_count)
            (log_msg (LogUploadDone success_count fail_count) (restore_upload_buttons w))
        else w)"

text \<open>\<open>on_upload_finished\<close>, lines 767 to 785.\<close>

definition on_upload_finished ::
  "pystr \<Rightarrow> bool \<Rightarrow> pystr \<Rightarrow> LowerComputerWindow \<Rightarrow> LowerComputerWindow" where
  "on_upload_finished file_name success message w =
     (let w1 = w\<lparr>data_items :=
                  update_first (has_name file_name)
                    (\<lambda>it. if success
                          then set_uploaded True (set_progress 100 (set_status status_success it))
                          else set_progress 0 (set_status status_failed it))
                    (data_items w)\<rparr>;
          w2 = (if \<exists>(k, it) \<in> set (data_items w). has_name file_name it
                then log_msg (if success then LogUploadOk file_name message
                              else LogUploadFail file_name message) w1
                else w1)
      in check_all_uploads_finished w2)"

subsection \<open>Operator actions and worker signals\<close>

text \<open>
  What reaches the window: a click on a button (the handler runs only while the button
  is enabled), a click on the check box of a row, and the two signals of a worker.
\<close>

datatype event =
  Connect "exc + json"
| AddExcel "path \<Rightarrow> nat option" "DataType \<Rightarrow> pystr" "path list"
| AddImage "path \<Rightarrow> nat option" "DataType \<Rightarrow> pystr" "path list"
| RemoveSelected "pystr list"
| ClearList bool
| SelectAll
| DeselectAll
| ToggleCheckbox pystr bool
| Upload
| StopUpload bool
| ProgressSignal pystr int
| FinishedSignal pystr bool pystr

fun handle :: "event \<Rightarrow> LowerComputerWindow \<Rightarrow> LowerComputerWindow" where
  "handle (Connect a) w = connect_to_server a w"
| "handle (AddExcel fs descr ps) w = (if add_excel_btn w then add_excel_files fs descr ps w else w)"
| "handle (AddImage fs descr ps) w = (if add_image_btn w then add_image_files fs descr ps w else w)"
| "handle (RemoveSelected sel) w = (if remove_file_btn w then remove_selected_data sel w else w)"
| "handle (ClearList r) w = (if clear_files_btn w then clear_data_list r w else w)"
| "handle SelectAll w = (if select_all_btn w then select_all_data w else w)"
| "handle DeselectAll w = (if deselect_all_btn w then deselect_all_data w else w)"
| "handle (ToggleCheckbox k b) w = toggle_checkbox k b w"
| "handle Upload w = (if upload_btn w then upload_data w else w)"
| "handle (StopUpload r) w = (if stop_upload_btn w then stop_upload r w else w)"
| "handle (ProgressSignal f n) w = on_upload_progress f n w"
| "handle (FinishedSignal f ok m) w = on_upload_finished f ok m w"

definition run_events :: "event list \<Rightarrow> LowerComputerWindow \<Rightarrow> LowerComputerWindow" where
  "run_events es w = foldl (\<lambda>w' e. handle e w') w es"

text \<open>The events that can take the row with key \<open>k\<close> out of the queue.\<close>

fun removes :: "pystr \<Rightarrow> event \<Rightarrow> bool" where
  "removes k (RemoveSelected sel) = (k \<in> set sel)"
| "removes k (ClearList r) = r"
| "removes k e = False"

subsection \<open>Leaving the application\<close>

text \<open>
  \<open>quit_qt_application\<close>, lines 919 to 942, as the list of calls it makes. Its argument
  is what \<open>client.set_device_offline\<close> does (it posts with the client's timeout). The
  \<open>logger.info\<close> lines before the two \<open>stop\<close> calls are not kept.
\<close>

datatype quit_call =
  StopWebSocket
| JoinWebSocket nat
| StopHeartbeat
| JoinHeartbeat nat
| SetDeviceOffline pystr pystr nat
| LogDeviceOffline
| LogSetOfflineFailed exc

definition quit_qt_application :: "exc + json \<Rightarrow> LowerComputerWindow \<Rightarrow> quit_call list" where
  "quit_qt_application set_device_offline w =
     (if authenticated w then
        (if ws_thread w \<noteq> None then [StopWebSocket, JoinWebSocket 3] else [])
        @ (if long_polling_thread w \<noteq> None then [StopHeartbeat, JoinHeartbeat 3] else [])
        @ (case client w of
             None \<Rightarrow> []
           | Some c \<Rightarrow>
               SetDeviceOffline (py_strip (device_id_input w)) (cfg_hardware_key w) (timeout c)
               # (case set_device_offline of
                    Inl e \<Rightarrow> [LogSetOfflineFailed e]
                  | Inr _ \<Rightarrow> [LogDeviceOffline]))
      else [])"

section \<open>api/long\_polling\_client.py: the heartbeat thread\<close>

text \<open>
  \<open>start\<close> runs in its own thread while \<open>stop\<close> is called from the window's thread, so
  \<open>start\<close> is modelled statement by statement. \<open>pc\<close> is the statement the thread is at:
  \<^item> \<open>AtRunningTrue\<close>: line 39, \<open>self.running = True\<close>;
  \<^item> \<open>AtWhile\<close>: line 43, the test of \<open>while self.running\<close>;
  \<^item> \<open>AtHeartbeat\<close>, \<open>InHeartbeat\<close>: line 46, before and inside \<open>requests.post\<close> of the
    heartbeat; lines 55 to 75 run when the call returns or raises;
  \<^item> \<open>AtSleepTest\<close>: line 78, \<open>if self.running\<close>;
  \<^item> \<open>AtSleep\<close>, \<open>InSleep\<close>: line 79, before and inside \<open>time.sleep\<close>;
  \<^item> \<open>AtOffline\<close>, \<open>InOffline\<close>: line 83, before and inside the post of the offline notice;
  \<^item> \<open>AtFinish\<close>: lines 95 and 96; \<open>Returned\<close>: \<open>start\<close> has returned.
\<close>

datatype pc =
  AtRunningTrue | AtWhile | AtHeartbeat | InHeartbeat | AtSleepTest | AtSleep | InSleep
| AtOffline | InOffline | AtFinish | Returned

text \<open>What a \<open>requests.post\<close> call does: return a response with a status code, or raise
  \<open>Timeout\<close>, \<open>ConnectionError\<close> or another exception.\<close>

datatype post_outcome =
  Response nat | RaisedTimeout | RaisedConnectionError pystr | RaisedOther pystr

datatype endpoint = Heartbeat | Offline

datatype hb_log =
  HbStart | HbConnected | HbOk | HbFailed nat | HbTimeout | HbConnectionError pystr
| HbError pystr | HbOfflineSent | HbStopped | HbStopping

text \<open>
  The thread and its client. \<open>now\<close> is the clock; \<open>wake\<close> is the time at which the
  blocking call the thread is in returns; \<open>sent\<close> lists the requests issued, each with
  the time of the call, its endpoint and its \<open>timeout\<close> argument; \<open>logs\<close> are the
  \<open>logger\<close> calls.
\<close>

record supervisor =
  cl :: LowerLongPollingClient
  pc :: pc
  now :: nat
  wake :: nat
  sent :: "(nat \<times> endpoint \<times> nat) list"
  logs :: "hb_log list"

definition thread_started :: "LowerLongPollingClient \<Rightarrow> supervisor" where
  "thread_started c = \<lparr>cl = c, pc = AtRunningTrue, now = 0, wake = 0, sent = [], logs = []\<rparr>"

text \<open>Lines 55 to 75: the reply of the heartbeat, or the handler of what it raised.\<close>

definition heartbeat_done :: "post_outcome \<Rightarrow> supervisor \<Rightarrow> supervisor" where
  "heartbeat_done r s =
     (case r of
        Response status_code \<Rightarrow>
          if status_code = 200 then
            (if \<not> connected (cl s)
             then s\<lparr>cl := (cl s)\<lparr>connected := True\<rparr>, logs := logs s @ [HbConnected, HbOk]\<rparr>
             else s\<lparr>logs := logs s @ [HbOk]\<rparr>)
          else s\<lparr>cl := (cl s)\<lparr>connected := False\<rparr>, logs := logs s @ [HbFailed status_code]\<rparr>
      | RaisedTimeout \<Rightarrow>
          s\<lparr>cl := (cl s)\<lparr>connected := False\<rparr>, logs := logs s @ [HbTimeout]\<rparr>
      | RaisedConnectionError e \<Rightarrow>
          s\<lparr>cl := (cl s)\<lparr>connected := False\<rparr>, logs := logs s @ [HbConnectionError e]\<rparr>
      | RaisedOther e \<Rightarrow>
          s\<lparr>cl := (cl s)\<lparr>connected := False\<rparr>, logs := logs s @ [HbError e]\<rparr>)"

text \<open>
  One step of the thread. \<open>d\<close> is how long a network call that starts in this step will
  take, \<open>r\<close> what a network call that ends in this step does. A thread inside a
  blocking call stays there until the clock has reached \<open>wake\<close>.
\<close>

definition thread_step :: "nat \<Rightarrow> post_outcome \<Rightarrow> supervisor \<Rightarrow> supervisor" where
  "thread_step d r s =
     (case pc s of
        AtRunningTrue \<Rightarrow>
          s\<lparr>cl := (cl s)\<lparr>running := True\<rparr>, logs := logs s @ [HbStart], pc := AtWhile\<rparr>
      | AtWhile \<Rightarrow> if running (cl s) then s\<lparr>pc := AtHeartbeat\<rparr> else s\<lparr>pc := AtOffline\<rparr>
      | AtHeartbeat \<Rightarrow>
          s\<lparr>sent := sent s @ [(now s, Heartbeat, 10)], wake := now s + d, pc := InHeartbeat\<rparr>
      | InHeartbeat \<Rightarrow> if now s < wake s then s else (heartbeat_done r s)\<lparr>pc := AtSleepTest\<rparr>
      | AtSleepTest \<Rightarrow> if running (cl s) then s\<lparr>pc := AtSleep\<rparr> else s\<lparr>pc := AtWhile\<rparr>
      | AtSleep \<Rightarrow> s\<lparr>wake := now s + heartbeat_interval (cl s), pc := InSleep\<rparr>
      | InSleep \<Rightarrow> if now s < wake s then s else s\<lparr>pc := AtWhile\<rparr>
      | AtOffline \<Rightarrow>
          s\<lparr>sent := sent s @ [(now s, Offline, 5)], wake := now s + d, pc := InOffline\<rparr>
      | InOffline \<Rightarrow>
          if now s < wake s then s
          else (case r of
                  Response status_code \<Rightarrow> s\<lparr>logs := logs s @ [HbOfflineSent], pc := AtFinish\<rparr>
                | _ \<Rightarrow> s\<lparr>pc := AtFinish\<rparr>)
      | AtFinish \<Rightarrow>
          s\<lparr>cl := (cl s)\<lparr>connected := False\<rparr>, logs := logs s @ [HbStopped], pc := Returned\<rparr>
      | Returned \<Rightarrow> s)"

text \<open>\<open>stop\<close>, lines 98 to 101, and \<open>is_connected\<close>, lines 103 to 105.\<close>

definition stop :: "supervisor \<Rightarrow> supervisor" where
  "stop s = s\<lparr>cl := (cl s)\<lparr>running := False\<rparr>, logs := logs s @ [HbStopping]\<rparr>"

definition is_connected :: "supervisor \<Rightarrow> bool" where
  "is_connected s = (connected (cl s) \<and> running (cl s))"

text \<open>A run: the clock advances, the window's thread calls \<open>stop\<close>, the heartbeat
  thread takes a step.\<close>

datatype action = Tick | CallStop | ThreadStep nat post_outcome

fun step :: "action \<Rightarrow> supervisor \<Rightarrow> supervisor" where
  "step Tick s = s\<lparr>now := now s + 1\<rparr>"
| "step CallStop s = stop s"
| "step (ThreadStep d r) s = thread_step d r s"

definition exec :: "action list \<Rightarrow> supervisor \<Rightarrow> supervisor" where
  "exec acts s = foldl (\<lambda>s' a. step a s') s acts"

definition in_loop :: "supervisor \<Rightarrow> bool" where
  "in_loop s = (pc s \<in> {AtRunningTrue, AtWhile, AtHeartbeat, InHeartbeat, AtSleepTest, AtSleep, InSleep})"

definition offline_posts :: "supervisor \<Rightarrow> (nat \<times> endpoint \<times> nat) list" where
  "offline_posts s = filter (\<lambda>(t, e, tmo). e = Offline) (sent s)"

definition heartbeat_posts :: "supervisor \<Rightarrow> (nat \<times> endpoint \<times> nat) list" where
  "heartbeat_posts s = filter (\<lambda>(t, e, tmo). e = Heartbeat) (sent s)"

section \<open>Predicates on the upload worker\<close>

text \<open>The ratio as the formula gives it, in exact arithmetic, for sizes that are
  integers; and the rational numbers that are binary64 numbers.\<close>

definition spec_ratio :: "int \<Rightarrow> int \<Rightarrow> rat" where
  "spec_ratio original compressed =
     (of_int original - of_int compressed) / of_int original * 100"

definition representable :: "rat \<Rightarrow> bool" where
  "representable x = (round_mag \<bar>x\<bar> = Some \<bar>x\<bar>)"

section \<open>Predicates on the work queue\<close>

definition queue_keys :: "LowerComputerWindow \<Rightarrow> pystr list" where
  "queue_keys w = map fst (data_items w)"

text \<open>The ways in which the operations change one row.\<close>

inductive row_step :: "MeterDataListItem \<Rightarrow> MeterDataListItem \<Rightarrow> bool" where
  checked: "row_step it (it\<lparr>checkbox := b\<rparr>)"
| progress: "row_step it (set_progress n it)"
| submitted: "is_selected it \<Longrightarrow> row_step it (set_progress 0 (set_status status_uploading it))"
| succeeded: "row_step it (set_uploaded True (set_progress 100 (set_status status_success it)))"
| failed: "row_step it (set_progress 0 (set_status status_failed it))"

text \<open>Every row of \<open>w'\<close> is a row of \<open>w\<close>, or a row of \<open>w\<close> after one such change, or a
  new row under a key \<open>w\<close> does not have.\<close>

definition rows_from :: "LowerComputerWindow \<Rightarrow> LowerComputerWindow \<Rightarrow> bool" where
  "rows_from w w' =
     (\<forall>k it'. (k, it') \<in> set (data_items w') \<longrightarrow>
        (k, it') \<in> set (data_items w)
        \<or> (\<exists>it. (k, it) \<in> set (data_items w) \<and> row_step it it')
        \<or> (k \<notin> set (queue_keys w) \<and> (\<exists>md. it' = new_item md)))"

definition succeeded_uploaded :: "LowerComputerWindow \<Rightarrow> bool" where
  "succeeded_uploaded w =
     (\<forall>k it. (k, it) \<in> set (data_items w) \<longrightarrow> status_label it = status_success \<longrightarrow> uploaded it)"

definition uploaded_at :: "pystr \<Rightarrow> LowerComputerWindow \<Rightarrow> bool" where
  "uploaded_at k w =
     (k \<in> set (queue_keys w) \<and> (\<forall>it. (k, it) \<in> set (data_items w) \<longrightarrow> uploaded it))"



section \<open>Predicates on the heartbeat thread\<close>

text \<open>Without a call of \<open>stop\<close> the thread is before line 39 or in the loop with the
  flag set; in every run, a thread that has left the loop has the flag cleared.\<close>

definition loop_inv :: "supervisor \<Rightarrow> bool" where
  "loop_inv s = (pc s = AtRunningTrue \<or> (running (cl s) \<and> in_loop s))"

definition exit_inv :: "supervisor \<Rightarrow> bool" where
  "exit_inv s = (in_loop s \<or> \<not> running (cl s))"

text \<open>The offline notice has been posted exactly when the thread is past line 83.\<close>

definition offline_inv :: "supervisor \<Rightarrow> bool" where
  "offline_inv s =
     (if pc s \<in> {InOffline, AtFinish, Returned} then length (offline_posts s) = 1
      else offline_posts s = [])"

definition returned_inv :: "supervisor \<Rightarrow> bool" where
  "returned_inv s = (pc s \<noteq> Returned \<or> \<not> connected (cl s))"

section \<open>Concrete inputs\<close>

text \<open>A library whose conversions give \<open>str(e)\<close> of a raised exception and the empty
  text otherwise, and an image file \<open>/b.png\<close>.\<close>

definition ex_py :: pylib where
  "ex_py =
     \<lparr>str_exc = (\<lambda>e. case e of Raised m \<Rightarrow> m | _ \<Rightarrow> []),
      str_json = (\<lambda>v. []), fmt_fixed = (\<lambda>n x. [])\<rparr>"

definition ex_image :: MeterData where
  "ex_image =
     \<lparr>data_type = IMAGE,
      file_path = \<lparr>path_str = [47, 98, 46, 112, 110, 103], name = [98, 46, 112, 110, 103],
                   suffix = [46, 112, 110, 103]\<rparr>,
      description = [], file_size = 2000000\<rparr>"

text \<open>A file system in which every path exists with 10 bytes, empty descriptions, the
  Excel file \<open>/a.xls\<close>, and a window configured with server \<open>h\<close>, device \<open>d\<close> and
  key \<open>k\<close>. \<open>ex_first_batch\<close>: connect, add \<open>/a.xls\<close>, upload, and the worker reports
  success. \<open>ex_second_batch\<close>: add \<open>/b.png\<close>, upload, and the worker reports success.\<close>

definition ex_fs :: "path \<Rightarrow> nat option" where
  "ex_fs p = Some 10"

definition ex_descr :: "DataType \<Rightarrow> pystr" where
  "ex_descr dt = []"

definition ex_excel_path :: path where
  "ex_excel_path =
     \<lparr>path_str = [47, 97, 46, 120, 108, 115], name = [97, 46, 120, 108, 115],
      suffix = [46, 120, 108, 115]\<rparr>"

definition ex_window :: LowerComputerWindow where
  "ex_window = init_window [104] [100] [107]"

definition ex_first_batch :: "event list" where
  "ex_first_batch =
     [Connect (Inr (JObj [])), AddExcel ex_fs ex_descr [ex_excel_path], Upload,
      FinishedSignal [97, 46, 120, 108, 115] True []]"

definition ex_add_image :: event where
  "ex_add_image = AddImage ex_fs ex_descr [file_path ex_image]"

definition ex_second_batch :: "event list" where
  "ex_second_batch = [ex_add_image, Upload, FinishedSignal [98, 46, 112, 110, 103] True []]"

definition ex_uploaded_row :: MeterDataListItem where
  "ex_uploaded_row =
     \<lparr>meter_data = \<lparr>data_type = EXCEL, file_path = ex_excel_path, description = [],
                     file_size = 10\<rparr>,
      uploaded = True, checkbox = False, status_label = status_success,
      progress_visible = True, progress_value = 100\<rparr>"





text \<open>
  A client for server \<open>h\<close>, device \<open>d\<close>, key \<open>k\<close>. \<open>Go\<close> is a step of the thread
  that neither starts nor ends a network call. \<open>ex_until_probing\<close>: the thread sets the
  flag, enters the loop and posts a heartbeat that takes one unit of time, which passes.
  \<open>ex_until_probed\<close>: the reply is 200. \<open>ex_until_sleep\<close>: the thread then enters
  \<open>time.sleep\<close>.
\<close>

definition ex_client :: LowerLongPollingClient where
  "ex_client = new_LowerLongPollingClient [104] [100] [107]"

definition Go :: action where
  "Go = ThreadStep 0 (Response 200)"

definition ex_until_probing :: "action list" where
  "ex_until_probing = [Go, Go, ThreadStep 1 (Response 200), Tick]"

definition ex_until_probed :: "action list" where
  "ex_until_probed = ex_until_probing @ [ThreadStep 0 (Response 200)]"

definition ex_until_sleep :: "action list" where
  "ex_until_sleep = ex_until_probed @ [Go, Go]"

section \<open>Properties of binary64 rounding\<close>

lemma floor_log2_ge1:
  fixes x :: rat
  assumes "1 \<le> x"
  shows "2 powi (floor_log2 x) \<le> x \<and> x < 2 powi (floor_log2 x + 1)"
proof -
  let ?n = "\<lfloor>x\<rfloor>"
  have n: "0 < ?n" using assms by simp
  have b: "1 \<le> bitlen ?n"
    using n bitlen_eq_zero_iff [of ?n] bitlen_nonneg [of ?n] by linarith
  from bitlen_bounds [OF n] have lo: "2 ^ nat (bitlen ?n - 1) \<le> ?n" and hi: "?n < 2 ^ nat (bitlen ?n)"
    by simp_all
  have "(2::rat) ^ nat (bitlen ?n - 1) = of_int (2 ^ nat (bitlen ?n - 1))" by simp
  also have "\<dots> \<le> of_int ?n" using lo by (simp only: of_int_le_iff)
  also have "\<dots> \<le> x" by simp
  finally have 1: "(2::rat) ^ nat (bitlen ?n - 1) \<le> x" .
  from hi have "?n + 1 \<le> 2 ^ nat (bitlen ?n)" by simp
  then have "(of_int (?n + 1) :: rat) \<le> of_int (2 ^ nat (bitlen ?n))" by (simp only: of_int_le_iff)
  moreover have "x < of_int (?n + 1)" by linarith
  ultimately have 2: "x < (2::rat) ^ nat (bitlen ?n)" by simp
  have fl: "floor_log2 x = bitlen ?n - 1" using assms by (simp add: floor_log2_def)
  show ?thesis using 1 2 b by (simp add: fl power_int_def)
qed

lemma floor_log2_lt1:
  fixes x :: rat
  assumes "0 < x" "x < 1"
  shows "2 powi (floor_log2 x) \<le> x \<and> x < 2 powi (floor_log2 x + 1)"
proof -
  let ?y = "1 / x"
  let ?m = "\<lceil>?y\<rceil> - 1"
  have y: "1 < ?y" using assms by simp
  then have "1 < \<lceil>?y\<rceil>" by linarith
  then have m: "0 < ?m" by simp
  have b: "1 \<le> bitlen ?m"
    using m bitlen_eq_zero_iff [of ?m] bitlen_nonneg [of ?m] by linarith
  from bitlen_bounds [OF m] have lo: "2 ^ nat (bitlen ?m - 1) \<le> ?m" and hi: "?m < 2 ^ nat (bitlen ?m)"
    by simp_all
  have fl: "floor_log2 x = - bitlen ?m" using assms by (simp add: floor_log2_def)
  from hi have "\<lceil>?y\<rceil> \<le> 2 ^ nat (bitlen ?m)" by linarith
  then have "(of_int \<lceil>?y\<rceil> :: rat) \<le> of_int (2 ^ nat (bitlen ?m))"
    by (simp only: of_int_le_iff)
  moreover have "?y \<le> of_int \<lceil>?y\<rceil>" by (rule le_of_int_ceiling)
  ultimately have "?y \<le> of_int (2 ^ nat (bitlen ?m))" by (rule order_trans [rotated])
  then have "?y \<le> 2 ^ nat (bitlen ?m)" by simp
  then have 1: "1 / 2 ^ nat (bitlen ?m) \<le> x"
    using assms(1) by (simp add: field_simps)
  have "(of_int (2 ^ nat (bitlen ?m - 1)) :: rat) \<le> of_int ?m"
    using lo by (simp only: of_int_le_iff)
  moreover have "of_int ?m < ?y" by linarith
  ultimately have "(2::rat) ^ nat (bitlen ?m - 1) < ?y" by simp
  then have 2: "x < 1 / 2 ^ nat (bitlen ?m - 1)"
    using assms(1) by (simp add: field_simps)
  have p1: "(2::rat) powi (- bitlen ?m) = 1 / 2 ^ nat (bitlen ?m)"
    using b by (simp add: power_int_def field_simps)
  have p2: "(2::rat) powi (- bitlen ?m + 1) = 1 / 2 ^ nat (bitlen ?m - 1)"
  proof -
    have "- bitlen ?m + 1 = - (bitlen ?m - 1)" by simp
    then have "(2::rat) powi (- bitlen ?m + 1) = 2 powi (- (bitlen ?m - 1))" by simp
    also have "\<dots> = 1 / 2 powi (bitlen ?m - 1)" by (rule power_int_minus_divide)
    also have "\<dots> = 1 / 2 ^ nat (bitlen ?m - 1)" using b by (simp add: power_int_def)
    finally show ?thesis .
  qed
  show ?thesis using 1 2 by (simp only: fl p1 p2)
qed

lemma floor_log2_bounds:
  fixes x :: rat
  assumes "0 < x"
  shows "2 powi (floor_log2 x) \<le> x" and "x < 2 powi (floor_log2 x + 1)"
  using assms floor_log2_ge1 [of x] floor_log2_lt1 [of x] by (cases "1 \<le> x"; simp)+

lemma floor_log2_unique:
  fixes x :: rat
  assumes "2 powi e \<le> x" and "x < 2 powi (e + 1)"
  shows "floor_log2 x = e"
proof -
  have pos: "0 < x"
  proof -
    have "(0::rat) < 2 powi e" by (simp add: power_int_def)
    then show ?thesis using assms(1) by (rule less_le_trans)
  qed
  let ?f = "floor_log2 x"
  from floor_log2_bounds [OF pos] assms
  have lt1: "(2::rat) powi ?f < 2 powi (e + 1)" and lt2: "(2::rat) powi e < 2 powi (?f + 1)"
    by simp_all
  have "?f < e + 1"
  proof (rule ccontr)
    assume "\<not> ?f < e + 1"
    then have "e + 1 \<le> ?f" by simp
    then have "(2::rat) powi (e + 1) \<le> 2 powi ?f" by (rule power_int_increasing) simp
    with lt1 show False by simp
  qed
  moreover have "e < ?f + 1"
  proof (rule ccontr)
    assume "\<not> e < ?f + 1"
    then have "?f + 1 \<le> e" by simp
    then have "(2::rat) powi (?f + 1) \<le> 2 powi e" by (rule power_int_increasing) simp
    with lt2 show False by simp
  qed
  ultimately have "?f = e" by simp
  then show ?thesis by simp
qed

lemma round_half_even_int [simp]: "round_half_even (of_int k) = k"
  by (simp add: round_half_even_def)

lemma round_half_even_near: "\<bar>of_int (round_half_even t) - t\<bar> \<le> 1 / 2"
proof -
  have "of_int \<lfloor>t\<rfloor> \<le> t" "t < of_int \<lfloor>t\<rfloor> + 1" by linarith+
  then show ?thesis by (auto simp: round_half_even_def Let_def abs_le_iff)
qed

lemma round_half_even_ge1: "1 \<le> t \<Longrightarrow> 1 \<le> round_half_even t"
proof -
  assume "1 \<le> t"
  then have "1 \<le> \<lfloor>t\<rfloor>" by simp
  then show ?thesis by (auto simp: round_half_even_def Let_def)
qed

lemma round_half_even_numeral [simp]: "round_half_even (numeral k) = numeral k"
  using round_half_even_int [of "numeral k"] by simp

lemma round_magI:
  fixes x :: rat
  assumes "2 powi e \<le> x" and "x < 2 powi (e + 1)" and "- 1022 \<le> e"
    and "round_half_even (x / 2 powi (e - 52)) = n"
    and "of_int n * (2::rat) powi (e - 52) < 2 powi 1024"
  shows "round_mag x = Some (of_int n * 2 powi (e - 52))"
proof -
  have "(0::rat) < 2 powi e" by (simp add: power_int_def)
  then have "0 < x" using assms(1) by (rule less_le_trans)
  moreover have "floor_log2 x = e" using assms(1,2) by (rule floor_log2_unique)
  ultimately show ?thesis using assms(3,4,5) by (simp add: round_mag_def Let_def max_def)
qed

lemma round_mag_ge1:
  assumes "1 \<le> x"
  shows "round_mag x \<noteq> Some 0"
proof -
  let ?e = "floor_log2 x"
  have pos: "0 < x" using assms by simp
  have up: "x < 2 powi (?e + 1)" and lo: "2 powi ?e \<le> x"
    using floor_log2_bounds [OF pos] by simp_all
  have e: "0 \<le> ?e"
  proof (rule ccontr)
    assume "\<not> 0 \<le> ?e"
    then have "?e + 1 \<le> 0" by simp
    then have "(2::rat) powi (?e + 1) \<le> 2 powi 0" by (rule power_int_increasing) simp
    with up assms show False by simp
  qed
  let ?q = "(2::rat) powi (?e - 52)"
  have q: "0 < ?q" by (simp add: power_int_def)
  have "?q \<le> 2 powi ?e" by (rule power_int_increasing) simp_all
  with lo have "?q \<le> x" by simp
  then have "1 \<le> x / ?q" using q by (simp add: field_simps)
  then have "1 \<le> round_half_even (x / ?q)" by (rule round_half_even_ge1)
  then have "(0::rat) < of_int (round_half_even (x / ?q)) * ?q" using q by simp
  then show ?thesis using pos e by (auto simp: round_mag_def Let_def max_def)
qed

lemma round_mag_error:
  assumes "2 powi (- 1022) \<le> x" and "x < 2 powi 1023"
  shows "\<exists>y. round_mag x = Some y \<and> \<bar>y - x\<bar> \<le> x * 2 powi (- 53)"
proof -
  let ?e = "floor_log2 x"
  have "(0::rat) < 2 powi (- 1022)" by (simp add: power_int_def)
  then have pos: "0 < x" using assms(1) by (rule less_le_trans)
  have up: "x < 2 powi (?e + 1)" and lo: "2 powi ?e \<le> x"
    using floor_log2_bounds [OF pos] by simp_all
  have e: "- 1022 \<le> ?e"
  proof (rule ccontr)
    assume "\<not> - 1022 \<le> ?e"
    then have "?e + 1 \<le> - 1022" by simp
    then have "(2::rat) powi (?e + 1) \<le> 2 powi (- 1022)" by (rule power_int_increasing) simp
    with up assms(1) show False by simp
  qed
  let ?q = "(2::rat) powi (?e - 52)"
  let ?n = "round_half_even (x / ?q)"
  let ?y = "of_int ?n * ?q"
  have q: "0 < ?q" by (simp add: power_int_def)
  have "\<bar>of_int ?n - x / ?q\<bar> \<le> 1 / 2" by (rule round_half_even_near)
  then have "\<bar>of_int ?n - x / ?q\<bar> * ?q \<le> 1 / 2 * ?q" using q by (simp only: mult_le_cancel_right_pos)
  moreover have "\<bar>of_int ?n - x / ?q\<bar> * ?q = \<bar>?y - x\<bar>"
  proof -
    have "\<bar>of_int ?n - x / ?q\<bar> * ?q = \<bar>(of_int ?n - x / ?q) * ?q\<bar>"
      using q by (simp add: abs_mult)
    also have "(of_int ?n - x / ?q) * ?q = ?y - x" using q by (simp add: field_simps)
    finally show ?thesis .
  qed
  ultimately have near: "\<bar>?y - x\<bar> \<le> 1 / 2 * ?q" by simp
  have half: "1 / 2 * ?q = 2 powi ?e * 2 powi (- 53)"
  proof -
    have "(2::rat) powi (?e - 53 + 1) = 2 powi (?e - 53) * 2 powi 1"
      by (rule power_int_add) simp
    then have "?q = 2 powi (?e - 53) * 2" by simp
    also have "(2::rat) powi (?e - 53) = 2 powi (?e + (- 53))" by simp
    also have "(2::rat) powi (?e + (- 53)) = 2 powi ?e * 2 powi (- 53)"
      by (rule power_int_add) simp
    finally show ?thesis by simp
  qed
  have p53: "(0::rat) < 2 powi (- 53)" by (simp add: power_int_def)
  have "2 powi ?e * 2 powi (- 53) \<le> x * 2 powi (- 53)" using lo p53 by simp
  with near half have err: "\<bar>?y - x\<bar> \<le> x * 2 powi (- 53)" by simp
  have "(2::rat) powi (- 53) \<le> 2 powi 0" by (rule power_int_increasing) simp_all
  then have "(2::rat) powi (- 53) \<le> 1" by simp
  then have le1: "x * 2 powi (- 53) \<le> x"
    using mult_left_mono [of "2 powi (- 53)" 1 x] pos by simp
  from err le1 have "\<bar>?y - x\<bar> \<le> x" by (rule order_trans)
  then have "?y \<le> x + x" by linarith
  also have "\<dots> < 2 powi 1023 + 2 powi 1023" using assms(2) by simp
  also have "\<dots> = (2::rat) powi 1024" by simp
  finally have "?y < 2 powi 1024" .
  then have "round_mag x = Some ?y" using pos e by (simp add: round_mag_def Let_def max_def)
  with err show ?thesis by blast
qed

lemma floor_rat_numeral [simp]:
  "\<lfloor>numeral a / numeral b :: rat\<rfloor> = numeral a div numeral b"
  using floor_divide_of_int_eq [of "numeral a" "numeral b", where ?'a = rat] by simp

lemma round_mag_three_quarters: "round_mag (3 / 4) = Some (3 / 4)"
  using round_magI [of "- 1" "3 / 4" 6755399441055744] by simp

lemma round_mag_75: "round_mag 75 = Some 75"
  using round_magI [of 6 75 "75 * 2 ^ 46"] by simp

lemma round_mag_third: "round_mag (1 / 3) = Some (6004799503160661 / 18014398509481984)"
  using round_magI [of "- 2" "1 / 3" 6004799503160661] by (simp add: round_half_even_def Let_def)

lemma round_mag_0 [simp]: "round_mag 0 = Some 0"
  by (simp add: round_mag_def)

lemma round_half_even_small:
  assumes "0 \<le> t" and "t < 1 / 2"
  shows "round_half_even t = 0"
proof -
  have "\<lfloor>t\<rfloor> = 0" using assms by (simp add: floor_eq_iff)
  then show ?thesis using assms by (simp add: round_half_even_def)
qed

lemma round_mag_underflow:
  assumes "0 \<le> x" and "x < 2 powi (- 1075)"
  shows "round_mag x = Some 0"
proof (cases "x = 0")
  case True
  then show ?thesis by simp
next
  case False
  then have pos: "0 < x" using assms(1) by simp
  have e: "floor_log2 x \<le> - 1022"
  proof (rule ccontr)
    assume "\<not> floor_log2 x \<le> - 1022"
    then have "- 1075 \<le> floor_log2 x" by simp
    then have "(2::rat) powi (- 1075) \<le> 2 powi floor_log2 x" by (rule power_int_increasing) simp
    also have "\<dots> \<le> x" using floor_log2_bounds(1) [OF pos] .
    finally show False using assms(2) by simp
  qed
  have "x / 2 powi (- 1074) < 1 / 2" using assms(2) by (simp add: power_int_def field_simps)
  moreover have "0 \<le> x / 2 powi (- 1074)" using assms(1) by (simp add: power_int_def)
  ultimately have "round_half_even (x / 2 powi (- 1074)) = 0" by (rule round_half_even_small [rotated])
  then show ?thesis using False e by (simp add: round_mag_def Let_def max_def)
qed

lemma round_mag_100: "round_mag 100 = Some 100"
  using round_magI [of 6 100 "100 * 2 ^ 46"] by simp

lemma round_mag_1048576: "round_mag 1048576 = Some 1048576"
  using round_magI [of 20 1048576 "2 ^ 52"] by simp

lemma int_to_float_100: "int_to_float 100 = Inr (Finite False 100)"
  by (simp add: int_to_float_def round_mag_100)

lemma int_truediv_eq:
  "b \<noteq> 0 \<Longrightarrow> round_mag \<bar>of_int a / of_int b\<bar> = Some y \<Longrightarrow>
   int_truediv a b = Inr (Finite ((a < 0) \<noteq> (b < 0)) y)"
  by (simp add: int_truediv_def)

lemma py_mul_eq:
  "round_mag (q * 100) = Some y \<Longrightarrow> py_mul (Finite s q) 100 = Inr (Finite s y)"
  by (simp add: py_mul_def int_to_float_100 round_f64_def)

lemma compression_ratio_int:
  "0 < osize \<Longrightarrow>
   compression_ratio (JInt osize) (JInt csize) =
     (case int_truediv (osize - csize) osize of
        Inl e \<Rightarrow> Inl e
      | Inr q \<Rightarrow> (case py_mul q 100 of Inl e \<Rightarrow> Inl e | Inr r \<Rightarrow> Inr (PFloat r)))"
  by (simp add: compression_ratio_def as_num_def py_gt_zero_def py_sub_def py_truediv_def)

lemma two_step_error:
  fixes t q y u :: rat
  assumes t: "0 \<le> t" and u0: "0 \<le> u" and u1: "u \<le> 1"
    and q: "\<bar>q - t\<bar> \<le> t * u" and y: "\<bar>y - q * 100\<bar> \<le> q * 100 * u"
  shows "\<bar>y - t * 100\<bar> \<le> t * 100 * (4 * u)"
proof -
  have tu: "0 \<le> t * u" using t u0 by simp
  have "t * u \<le> t * 1" using t u1 by (rule mult_left_mono [rotated])
  then have tu1: "t * u \<le> t" by simp
  from q tu1 have q2: "q \<le> 2 * t" by linarith
  then have "q * u \<le> 2 * t * u" using u0 by (rule mult_right_mono)
  then have "q * 100 * u \<le> 200 * (t * u)" by simp
  with y have "\<bar>y - q * 100\<bar> \<le> 200 * (t * u)" by linarith
  with q have "\<bar>y - t * 100\<bar> \<le> 300 * (t * u)" by linarith
  also have "\<dots> \<le> 400 * (t * u)" using tu by simp
  also have "\<dots> = t * 100 * (4 * u)" by simp
  finally show ?thesis .
qed

section \<open>Properties of the upload worker\<close>

lemma keys_distinct:
  "key_compressed_size \<noteq> key_original_size" "key_file_id \<noteq> key_original_size"
  "key_file_id \<noteq> key_compressed_size"
  by (simp_all add: key_original_size_def key_compressed_size_def key_file_id_def)

lemma compression_ratio_equal:
  assumes "0 < osize"
  shows "compression_ratio (JInt osize) (JInt osize) = Inr (PFloat (Finite False 0))"
  using assms
  by (simp add: compression_ratio_int int_truediv_def py_mul_def int_to_float_100 round_f64_def)

lemma compression_ratio_error:
  assumes pos: "0 < osize" and ne: "csize \<noteq> osize"
    and ob: "osize \<le> 2 ^ 1000" and cb: "\<bar>csize\<bar> \<le> 2 ^ 1000"
  shows "\<exists>y. compression_ratio (JInt osize) (JInt csize) = Inr (PFloat (Finite (osize < csize) y))
           \<and> \<bar>y - \<bar>spec_ratio osize csize\<bar>\<bar> \<le> \<bar>spec_ratio osize csize\<bar> * 2 powi (- 51)"
proof -
  define t :: rat where "t = \<bar>of_int (osize - csize) / of_int osize\<bar>"
  define u :: rat where "u = 2 powi (- 53)"
  have u0: "0 \<le> u" and u1: "u \<le> 1" and u4: "4 * u = 2 powi (- 51)"
    by (simp_all add: u_def)
  have o1: "(1::rat) \<le> of_int osize" using pos by simp
  have "(of_int osize :: rat) \<le> of_int (2 ^ 1000)" using ob by (simp only: of_int_le_iff)
  then have o2: "(of_int osize :: rat) \<le> 2 powi 1000" by simp
  have "(of_int \<bar>csize\<bar> :: rat) \<le> of_int (2 ^ 1000)" using cb by (simp only: of_int_le_iff)
  then have c2: "\<bar>of_int csize :: rat\<bar> \<le> 2 powi 1000" by simp
  have "1 \<le> \<bar>osize - csize\<bar>" using ne by simp
  then have "(of_int 1 :: rat) \<le> of_int \<bar>osize - csize\<bar>" by (simp only: of_int_le_iff)
  then have d1: "(1::rat) \<le> \<bar>of_int (osize - csize)\<bar>" by simp
  have t_eq: "t = \<bar>of_int (osize - csize)\<bar> / of_int osize" using pos by (simp add: t_def)
  have "1 / (2 powi 1000) \<le> 1 / (of_int osize :: rat)"
    using o1 o2 by (intro divide_left_mono) simp_all
  also have "\<dots> \<le> t" unfolding t_eq using d1 o1 by (intro divide_right_mono) simp_all
  finally have "(2::rat) powi (- 1000) \<le> t" by (simp add: power_int_minus divide_simps)
  moreover have "(2::rat) powi (- 1022) \<le> 2 powi (- 1000)" by (rule power_int_increasing) simp_all
  ultimately have t_lo: "2 powi (- 1000) \<le> t" and t_min: "2 powi (- 1022) \<le> t" by simp_all
  have "t \<le> \<bar>of_int (osize - csize)\<bar> / 1" unfolding t_eq using o1 by (intro divide_left_mono) simp_all
  also have "\<dots> \<le> \<bar>of_int osize\<bar> + \<bar>of_int csize\<bar>" by simp
  also have "\<dots> \<le> 2 powi 1000 + 2 powi 1000" using o2 c2 pos by simp
  also have "\<dots> = (2::rat) powi 1001" by simp
  finally have t_hi: "t \<le> 2 powi 1001" .
  have "(2::rat) powi 1001 < 2 powi 1023" by (rule power_int_strict_increasing) simp_all
  with t_hi have t_max: "t < 2 powi 1023" by simp
  have t0: "0 \<le> t" by (simp add: t_def)
  from round_mag_error [OF t_min t_max] obtain q
    where rq: "round_mag t = Some q" and eq: "\<bar>q - t\<bar> \<le> t * u" unfolding u_def by blast
  have "t * u \<le> t * (1 / 2)" using t0 by (intro mult_left_mono) (simp_all add: u_def)
  with eq have q_lo: "t / 2 \<le> q" by linarith
  have "t * u \<le> t * 1" using t0 u1 by (intro mult_left_mono) simp_all
  with eq have q_hi: "q \<le> 2 * t" by linarith
  have "(2::rat) powi (- 1022) \<le> 2 powi (- 1000) * 50"
  proof -
    have "(2::rat) powi (- 1000) * 1 \<le> 2 powi (- 1000) * 50" by (intro mult_left_mono) simp_all
    with \<open>(2::rat) powi (- 1022) \<le> 2 powi (- 1000)\<close> show ?thesis by simp
  qed
  also have "\<dots> \<le> t * 50" using t_lo by simp
  also have "\<dots> \<le> q * 100" using q_lo by simp
  finally have p_min: "2 powi (- 1022) \<le> q * 100" .
  have "q * 100 \<le> 2 powi 1001 * 200" using q_hi t_hi by simp
  also have "\<dots> < 2 powi 1001 * (2 powi 8)" by (intro mult_strict_left_mono) simp_all
  also have "\<dots> = (2::rat) powi (1001 + 8)" by (rule power_int_add [symmetric]) simp
  also have "\<dots> \<le> 2 powi 1022" by (rule power_int_increasing) simp_all
  also have "\<dots> < (2::rat) powi 1023" by (rule power_int_strict_increasing) simp_all
  finally have p_max: "q * 100 < 2 powi 1023" .
  from round_mag_error [OF p_min p_max] obtain y
    where ry: "round_mag (q * 100) = Some y" and ey: "\<bar>y - q * 100\<bar> \<le> q * 100 * u"
    unfolding u_def by blast
  have osz: "osize \<noteq> 0" using pos by simp
  have "int_truediv (osize - csize) osize = Inr (Finite ((osize - csize < 0) \<noteq> (osize < 0)) q)"
    using osz rq [unfolded t_def] by (rule int_truediv_eq)
  then have div: "int_truediv (osize - csize) osize = Inr (Finite (osize < csize) q)"
    using pos by simp
  have cr: "compression_ratio (JInt osize) (JInt csize) = Inr (PFloat (Finite (osize < csize) y))"
    by (simp add: compression_ratio_int [OF pos] div py_mul_eq [OF ry])
  have "\<bar>y - t * 100\<bar> \<le> t * 100 * (4 * u)" using t0 u0 u1 eq ey by (rule two_step_error)
  moreover have "\<bar>spec_ratio osize csize\<bar> = t * 100"
  proof -
    have am: "\<bar>x * 100\<bar> = \<bar>x\<bar> * 100" for x :: rat by (simp add: abs_mult)
    have "spec_ratio osize csize = of_int (osize - csize) / of_int osize * 100"
      by (simp add: spec_ratio_def)
    then show ?thesis unfolding t_def by (simp only: am)
  qed
  ultimately have "\<bar>y - \<bar>spec_ratio osize csize\<bar>\<bar> \<le> \<bar>spec_ratio osize csize\<bar> * 2 powi (- 51)"
    by (simp only: u4)
  with cr show ?thesis by blast
qed

lemma compression_ratio_exact:
  assumes pos: "0 < osize"
    and rq: "representable ((of_int osize - of_int csize) / of_int osize)"
    and rr: "representable (spec_ratio osize csize)"
  shows "compression_ratio (JInt osize) (JInt csize) =
           Inr (PFloat (Finite (osize < csize) \<bar>spec_ratio osize csize\<bar>))"
proof -
  define t :: rat where "t = \<bar>of_int (osize - csize) / of_int osize\<bar>"
  have "(of_int osize - of_int csize) / of_int osize = (of_int (osize - csize) / of_int osize :: rat)"
    by simp
  with rq have 1: "round_mag t = Some t" unfolding t_def by (simp only: representable_def)
  have am: "\<bar>x * 100\<bar> = \<bar>x\<bar> * 100" for x :: rat by (simp add: abs_mult)
  have "spec_ratio osize csize = of_int (osize - csize) / of_int osize * 100"
    by (simp add: spec_ratio_def)
  then have s: "\<bar>spec_ratio osize csize\<bar> = t * 100" unfolding t_def by (simp only: am)
  with rr have 2: "round_mag (t * 100) = Some (t * 100)" by (simp only: representable_def)
  have osz: "osize \<noteq> 0" using pos by simp
  have "int_truediv (osize - csize) osize = Inr (Finite ((osize - csize < 0) \<noteq> (osize < 0)) t)"
    using osz 1 [unfolded t_def] unfolding t_def by (rule int_truediv_eq)
  then have div: "int_truediv (osize - csize) osize = Inr (Finite (osize < csize) t)"
    using pos by simp
  show ?thesis by (simp add: compression_ratio_int [OF pos] div py_mul_eq [OF 2] s)
qed

lemma compression_ratio_guard:
  "osize \<le> 0 \<Longrightarrow> compression_ratio (JInt osize) v = Inr (PInt 0)"
  by (simp add: compression_ratio_def as_num_def py_gt_zero_def)

lemma dict_get_not_zd [simp]: "dict_get d k v \<noteq> Inl ZeroDivisionError"
  by (simp add: dict_get_def split: json.splits)

lemma as_num_not_zd [simp]: "as_num v \<noteq> Inl ZeroDivisionError"
  by (simp add: as_num_def split: json.splits)

lemma int_to_float_not_zd [simp]: "int_to_float n \<noteq> Inl ZeroDivisionError"
  by (simp add: int_to_float_def split: option.splits)

lemma to_float_not_zd [simp]: "to_float x \<noteq> Inl ZeroDivisionError"
  by (simp add: to_float_def split: pynum.splits)

lemma py_sub_not_zd [simp]: "py_sub x y \<noteq> Inl ZeroDivisionError"
  by (auto simp: py_sub_def split: pynum.splits sum.splits)

lemma py_mul_not_zd [simp]: "py_mul x n \<noteq> Inl ZeroDivisionError"
  by (auto simp: py_mul_def split: sum.splits)

lemma int_truediv_not_zd: "b \<noteq> 0 \<Longrightarrow> int_truediv a b \<noteq> Inl ZeroDivisionError"
  by (simp add: int_truediv_def split: option.splits)

lemma to_float_pos_not_zero:
  assumes "py_gt_zero x" and "to_float x = Inr f"
  shows "\<not> f64_is_zero f"
proof (cases x)
  case (PInt n)
  then have "1 \<le> (of_int n :: rat)" using assms(1) by (simp add: py_gt_zero_def)
  then have "round_mag (of_int n) \<noteq> Some 0" by (rule round_mag_ge1)
  then show ?thesis using assms PInt
    by (auto simp: to_float_def int_to_float_def py_gt_zero_def split: option.splits)
next
  case (PFloat g)
  then show ?thesis using assms
    by (cases g) (auto simp: to_float_def py_gt_zero_def f64_val_def split: if_splits)
qed

lemma py_truediv_pos_not_zd:
  assumes "py_gt_zero y"
  shows "py_truediv x y \<noteq> Inl ZeroDivisionError"
proof (cases "\<exists>a b. x = PInt a \<and> y = PInt b")
  case True
  then show ?thesis using assms by (auto simp: py_truediv_def py_gt_zero_def int_truediv_not_zd)
next
  case False
  then have "py_truediv x y =
    (case to_float x of
       Inl e \<Rightarrow> Inl e
     | Inr a \<Rightarrow>
         (case to_float y of
            Inl e \<Rightarrow> Inl e
          | Inr b \<Rightarrow> if f64_is_zero b then Inl ZeroDivisionError else Inr (f64_div a b)))"
    by (auto simp: py_truediv_def split: pynum.splits)
  then show ?thesis using to_float_pos_not_zero [OF assms]
    by (auto split: sum.splits)
qed

lemma compression_ratio_not_zd: "compression_ratio a b \<noteq> Inl ZeroDivisionError"
  using py_truediv_pos_not_zd
  by (auto simp: compression_ratio_def split: sum.splits if_splits)

lemma py_gt_zero_1048576: "py_gt_zero (PInt 1048576)"
  by (simp add: py_gt_zero_def)

lemma success_message_not_zd: "success_message py md result \<noteq> Inl ZeroDivisionError"
  using py_truediv_pos_not_zd [OF py_gt_zero_1048576] compression_ratio_not_zd
  by (auto simp: success_message_def Let_def split: sum.splits if_splits)

lemma compression_ratio_75:
  "compression_ratio (JInt 2000000) (JInt 500000) = Inr (PFloat (Finite False 75))"
proof -
  have "round_mag \<bar>of_int (2000000 - 500000) / of_int 2000000\<bar> = Some (3 / 4)"
    using round_mag_three_quarters by simp
  then have "int_truediv (2000000 - 500000) 2000000 = Inr (Finite False (3 / 4))"
    by (simp add: int_truediv_def)
  moreover have "round_mag (3 / 4 * 100) = Some 75" using round_mag_75 by simp
  then have "py_mul (Finite False (3 / 4)) 100 = Inr (Finite False 75)" by (rule py_mul_eq)
  ultimately show ?thesis by (simp add: compression_ratio_int)
qed

lemma round_mag_size_before: "round_mag (15625 / 8192) = Some (15625 / 8192)"
  using round_magI [of 0 "15625 / 8192" 8589934592000000] by simp

lemma round_mag_size_after: "round_mag (15625 / 32768) = Some (15625 / 32768)"
  using round_magI [of "- 2" "15625 / 32768" 8589934592000000] by simp

lemma success_message_75:
  "success_message py ex_image
     (JObj [(key_original_size, JInt 2000000), (key_compressed_size, JInt 500000)]) =
   Inr (msg_upload_ok @ str_json py JNull @ [10]
        @ msg_size_before @ fmt_fixed py 2 (Finite False (15625 / 8192)) @ [77, 66, 10]
        @ msg_size_after @ fmt_fixed py 2 (Finite False (15625 / 32768)) @ [77, 66, 10]
        @ msg_ratio @ fmt_fixed py 1 (Finite False 75) @ [37])"
proof -
  have before: "py_truediv (PInt 2000000) (PInt (1024 * 1024)) = Inr (Finite False (15625 / 8192))"
    using round_mag_size_before by (simp add: py_truediv_def int_truediv_def)
  have after: "py_truediv (PInt 500000) (PInt (1024 * 1024)) = Inr (Finite False (15625 / 32768))"
    using round_mag_size_after by (simp add: py_truediv_def int_truediv_def)
  show ?thesis
    using keys_distinct before after
    by (simp add: success_message_def dict_get_def compression_ratio_75 is_image_def ex_image_def
        py_gt_zero_def f64_val_def as_num_def to_float_def)
qed

lemma run_original_zero:
  "results (run py md (Inr (JObj [(key_original_size, JInt 0), (key_compressed_size, v)])))
     = [(name (file_path md), True, msg_upload_ok @ str_json py JNull @ [10])]"
proof -
  have "compression_ratio (JInt 0) v = Inr (PInt 0)" by (simp add: compression_ratio_guard)
  then have "success_message py md (JObj [(key_original_size, JInt 0), (key_compressed_size, v)])
        = Inr (msg_upload_ok @ str_json py JNull @ [10])"
    using keys_distinct by (simp add: success_message_def dict_get_def py_gt_zero_def)
  then show ?thesis by (simp add: run_def run_try_def Let_def)
qed

lemma compression_ratio_3_2:
  "compression_ratio (JInt 3) (JInt 2) =
     Inr (PFloat (Finite False (2345624805922133 / 70368744177664)))"
proof -
  have "int_truediv (3 - 2) 3 = Inr (Finite False (6004799503160661 / 18014398509481984))"
    using round_mag_third by (simp add: int_truediv_def)
  moreover have "round_mag (6004799503160661 / 18014398509481984 * 100) =
      Some (2345624805922133 / 70368744177664)"
    using round_magI [of 5 "6004799503160661 / 18014398509481984 * 100" 4691249611844266]
    by (simp add: round_half_even_def Let_def)
  then have "py_mul (Finite False (6004799503160661 / 18014398509481984)) 100 =
      Inr (Finite False (2345624805922133 / 70368744177664))"
    by (rule py_mul_eq)
  ultimately show ?thesis by (simp add: compression_ratio_int)
qed

lemma compression_ratio_underflow:
  "compression_ratio (JInt (2 ^ 1100)) (JInt (2 ^ 1100 - 1)) = Inr (PFloat (Finite False 0))"
proof -
  have "round_mag \<bar>of_int (2 ^ 1100 - (2 ^ 1100 - 1)) / of_int (2 ^ 1100)\<bar> = Some 0"
    by (rule round_mag_underflow) simp_all
  then have "int_truediv (2 ^ 1100 - (2 ^ 1100 - 1)) (2 ^ 1100) = Inr (Finite False 0)"
    by (simp add: int_truediv_def)
  moreover have "round_mag (0 * 100) = Some 0" by simp
  then have "py_mul (Finite False 0) 100 = Inr (Finite False 0)" by (rule py_mul_eq)
  ultimately show ?thesis by (simp add: compression_ratio_int)
qed

lemma round_mag_1: "round_mag 1 = Some 1"
  using round_magI [of 0 1 "2 ^ 52"] by simp

lemma success_message_overflow:
  "success_message ex_py ex_image
     (JObj [(key_original_size, JInt (2 ^ 1100)), (key_compressed_size, JInt 0)]) =
   Inl OverflowError"
proof -
  have "int_truediv (2 ^ 1100 - 0) (2 ^ 1100) = Inr (Finite False 1)"
    using round_mag_1 by (simp add: int_truediv_def)
  moreover have "round_mag (1 * 100) = Some 100" using round_mag_100 by simp
  then have "py_mul (Finite False 1) 100 = Inr (Finite False 100)" by (rule py_mul_eq)
  ultimately have ratio:
    "compression_ratio (JInt (2 ^ 1100)) (JInt 0) = Inr (PFloat (Finite False 100))"
    by (simp add: compression_ratio_int)
  have fl: "floor_log2 (2 ^ 1080) = 1080" by (rule floor_log2_unique) simp_all
  have "round_mag (2 ^ 1080) = None" using fl by (simp add: round_mag_def Let_def)
  then have "py_truediv (PInt (2 ^ 1100)) (PInt (1024 * 1024)) = Inl OverflowError"
    by (simp add: py_truediv_def int_truediv_def)
  then show ?thesis
    using keys_distinct ratio
    by (simp add: success_message_def dict_get_def is_image_def ex_image_def
        py_gt_zero_def f64_val_def as_num_def)
qed

text \<open>
  C4. The ratio of line 59 is computed in binary64 arithmetic: the quotient
  \<open>(original - compressed) / original\<close> is rounded to a \<open>float\<close>, and so is its product
  with 100. For integer sizes with \<open>original > 0\<close>, both at most \<open>2 ^ 1000\<close> in
  magnitude, the result is a finite \<open>float\<close> with the sign of the formula's value and
  within the relative error \<open>2 powi (- 51)\<close> of it; it is the formula's value itself
  when the quotient and the product are binary64 numbers. Sizes 2000000 and 500000 give
  75.0, which an image's message shows through the format \<open>.1f\<close>. An original size that
  is not positive gives the \<open>int\<close> 0 whatever the compressed size is, without any
  division; with the size 0 the worker reports success. No reply makes the ratio or
  the message raise \<open>ZeroDivisionError\<close>.
\<close>

theorem compression_ratio_rounded:
  "(0 < osize \<longrightarrow> osize \<le> 2 ^ 1000 \<longrightarrow> \<bar>csize\<bar> \<le> 2 ^ 1000 \<longrightarrow>
      (\<exists>y. compression_ratio (JInt osize) (JInt csize) = Inr (PFloat (Finite (osize < csize) y))
           \<and> \<bar>y - \<bar>spec_ratio osize csize\<bar>\<bar> \<le> \<bar>spec_ratio osize csize\<bar> * 2 powi (- 51)))
   \<and> (0 < osize \<longrightarrow> representable ((of_int osize - of_int csize) / of_int osize) \<longrightarrow>
        representable (spec_ratio osize csize) \<longrightarrow>
        compression_ratio (JInt osize) (JInt csize) =
          Inr (PFloat (Finite (osize < csize) \<bar>spec_ratio osize csize\<bar>)))
   \<and> compression_ratio (JInt 2000000) (JInt 500000) = Inr (PFloat (Finite False 75))
   \<and> success_message py ex_image
         (JObj [(key_original_size, JInt 2000000), (key_compressed_size, JInt 500000)]) =
       Inr (msg_upload_ok @ str_json py JNull @ [10]
            @ msg_size_before @ fmt_fixed py 2 (Finite False (15625 / 8192)) @ [77, 66, 10]
            @ msg_size_after @ fmt_fixed py 2 (Finite False (15625 / 32768)) @ [77, 66, 10]
            @ msg_ratio @ fmt_fixed py 1 (Finite False 75) @ [37])
   \<and> (osize \<le> 0 \<longrightarrow> compression_ratio (JInt osize) v = Inr (PInt 0))
   \<and> compression_ratio a b \<noteq> Inl ZeroDivisionError
   \<and> success_message py md result \<noteq> Inl ZeroDivisionError
   \<and> results (run py md (Inr (JObj [(key_original_size, JInt 0), (key_compressed_size, v)])))
       = [(name (file_path md), True, msg_upload_ok @ str_json py JNull @ [10])]"
proof -
  have accurate: "0 < osize \<longrightarrow> osize \<le> 2 ^ 1000 \<longrightarrow> \<bar>csize\<bar> \<le> 2 ^ 1000 \<longrightarrow>
      (\<exists>y. compression_ratio (JInt osize) (JInt csize) = Inr (PFloat (Finite (osize < csize) y))
           \<and> \<bar>y - \<bar>spec_ratio osize csize\<bar>\<bar> \<le> \<bar>spec_ratio osize csize\<bar> * 2 powi (- 51))"
  proof (cases "csize = osize")
    case True
    then show ?thesis by (simp add: compression_ratio_equal spec_ratio_def)
  next
    case False
    then show ?thesis using compression_ratio_error [of osize csize] by blast
  qed
  have exact: "0 < osize \<longrightarrow> representable ((of_int osize - of_int csize) / of_int osize) \<longrightarrow>
        representable (spec_ratio osize csize) \<longrightarrow>
        compression_ratio (JInt osize) (JInt csize) =
          Inr (PFloat (Finite (osize < csize) \<bar>spec_ratio osize csize\<bar>))"
    using compression_ratio_exact [of osize csize] by blast
  have guard: "osize \<le> 0 \<longrightarrow> compression_ratio (JInt osize) v = Inr (PInt 0)"
    by (simp add: compression_ratio_guard)
  from accurate exact compression_ratio_75 success_message_75 [of py] guard
    compression_ratio_not_zd [of a b] success_message_not_zd [of py md result]
    run_original_zero [of py md v]
  show ?thesis by blast
qed

theorem compression_ratio_rounded_witness:
  "(0::int) < 3 \<and> (3::int) \<le> 2 ^ 1000 \<and> \<bar>2::int\<bar> \<le> 2 ^ 1000
   \<and> (\<exists>y. compression_ratio (JInt 3) (JInt 2) = Inr (PFloat (Finite False y))
          \<and> \<bar>y - 100 / 3\<bar> \<le> 100 / 3 * 2 powi (- 51))
   \<and> (0::int) < 4 \<and> representable ((of_int 4 - of_int 1) / of_int 4)
   \<and> representable (spec_ratio 4 1)
   \<and> compression_ratio (JInt 4) (JInt 1) = Inr (PFloat (Finite False 75))
   \<and> (0::int) \<le> 0 \<and> compression_ratio (JInt 0) JNull = Inr (PInt 0)"
proof -
  have "(0::int) < 3 \<longrightarrow> (3::int) \<le> 2 ^ 1000 \<longrightarrow> \<bar>2::int\<bar> \<le> 2 ^ 1000 \<longrightarrow>
      (\<exists>y. compression_ratio (JInt 3) (JInt 2) = Inr (PFloat (Finite ((3::int) < 2) y))
           \<and> \<bar>y - \<bar>spec_ratio 3 2\<bar>\<bar> \<le> \<bar>spec_ratio 3 2\<bar> * 2 powi (- 51))"
    using compression_ratio_rounded [where osize = 3 and csize = 2] by blast
  then have 1: "\<exists>y. compression_ratio (JInt 3) (JInt 2) = Inr (PFloat (Finite False y))
          \<and> \<bar>y - 100 / 3\<bar> \<le> 100 / 3 * 2 powi (- 51)"
    by (simp add: spec_ratio_def)
  have r1: "representable ((of_int 4 - of_int 1) / of_int 4)"
    using round_mag_three_quarters by (simp add: representable_def)
  have r2: "representable (spec_ratio 4 1)"
    using round_mag_75 by (simp add: representable_def spec_ratio_def)
  have "(0::int) < 4 \<longrightarrow> representable ((of_int 4 - of_int 1) / of_int 4) \<longrightarrow>
        representable (spec_ratio 4 1) \<longrightarrow>
        compression_ratio (JInt 4) (JInt 1) =
          Inr (PFloat (Finite ((4::int) < 1) \<bar>spec_ratio 4 1\<bar>))"
    using compression_ratio_rounded [where osize = 4 and csize = 1] by blast
  then have 2: "compression_ratio (JInt 4) (JInt 1) = Inr (PFloat (Finite False 75))"
    using r1 r2 by (simp add: spec_ratio_def)
  have "(0::int) \<le> 0 \<longrightarrow> compression_ratio (JInt 0) JNull = Inr (PInt 0)"
    using compression_ratio_rounded [where osize = 0 and v = JNull] by blast
  then have 3: "compression_ratio (JInt 0) JNull = Inr (PInt 0)" by simp
  from 1 r1 r2 2 3 show ?thesis by simp
qed

theorem ratio_is_not_the_exact_quotient:
  "compression_ratio (JInt 3) (JInt 2) =
     Inr (PFloat (Finite False (2345624805922133 / 70368744177664)))
   \<and> spec_ratio 3 2 = 100 / 3
   \<and> (2345624805922133 / 70368744177664 :: rat) \<noteq> 100 / 3
   \<and> compression_ratio (JInt (2 ^ 1100)) (JInt (2 ^ 1100 - 1)) = Inr (PFloat (Finite False 0))
   \<and> 0 < spec_ratio (2 ^ 1100) (2 ^ 1100 - 1)
   \<and> success_message ex_py ex_image
        (JObj [(key_original_size, JInt (2 ^ 1100)), (key_compressed_size, JInt 0)]) =
      Inl OverflowError"
proof -
  have "spec_ratio 3 2 = 100 / 3" by (simp add: spec_ratio_def)
  moreover have "(2345624805922133 / 70368744177664 :: rat) \<noteq> 100 / 3" by simp
  moreover have "0 < spec_ratio (2 ^ 1100) (2 ^ 1100 - 1)" by (simp add: spec_ratio_def)
  ultimately show ?thesis
    using compression_ratio_3_2 compression_ratio_underflow success_message_overflow by blast
qed

text \<open>
  C1. Every execution of \<open>run\<close> emits exactly one \<open>finished\<close> signal. When
  \<open>upload_file\<close> raises, the signals are progress 30, progress 0 and one failure whose
  message is the prefix of line 75 followed by \<open>str(e)\<close>; when a statement after the
  upload raises, progress 100 comes before them; otherwise progress 30, progress 100
  and one success. The message of a failure is never empty. \<open>run\<close> returns its signals
  in every case: no exception leaves it.
\<close>

theorem run_one_result:
  "length (results (run py md upload_file)) = 1
   \<and> (\<forall>e. upload_file = Inl e \<longrightarrow>
          run py md upload_file =
            [Progress (name (file_path md)) 30, Progress (name (file_path md)) 0,
             Finished (name (file_path md)) False (msg_upload_failed @ str_exc py e)])
   \<and> (\<forall>result e. upload_file = Inr result \<and> success_message py md result = Inl e \<longrightarrow>
          run py md upload_file =
            [Progress (name (file_path md)) 30, Progress (name (file_path md)) 100,
             Progress (name (file_path md)) 0,
             Finished (name (file_path md)) False (msg_upload_failed @ str_exc py e)])
   \<and> (\<forall>result m. upload_file = Inr result \<and> success_message py md result = Inr m \<longrightarrow>
          run py md upload_file =
            [Progress (name (file_path md)) 30, Progress (name (file_path md)) 100,
             Finished (name (file_path md)) True m])
   \<and> (\<forall>f m. (f, False, m) \<in> set (results (run py md upload_file)) \<longrightarrow> m \<noteq> [])"
  by (auto simp: run_def run_try_def Let_def msg_upload_failed_def split: sum.splits)

theorem run_one_result_witness:
  "length (results (run ex_py ex_image (Inl (Raised [110, 111])))) = 1
   \<and> run ex_py ex_image (Inl (Raised [110, 111])) =
        [Progress [98, 46, 112, 110, 103] 30, Progress [98, 46, 112, 110, 103] 0,
         Finished [98, 46, 112, 110, 103] False [19978, 20256, 22833, 36133, 58, 32, 110, 111]]"
  using run_one_result [of ex_py ex_image "Inl (Raised [110, 111])"]
  by (simp add: ex_py_def ex_image_def msg_upload_failed_def Let_def)

section \<open>Properties of the work queue\<close>

lemma data_items_log_msg [simp]: "data_items (log_msg m w) = data_items w"
  by (simp add: log_msg_def)

lemma data_items_show_dialog [simp]: "data_items (show_dialog d w) = data_items w"
  by (simp add: show_dialog_def)

lemma data_items_update_data_count [simp]: "data_items (update_data_count w) = data_items w"
  by (simp add: update_data_count_def Let_def)

lemma data_items_restore [simp]: "data_items (restore_upload_buttons w) = data_items w"
  by (simp add: restore_upload_buttons_def)

lemma data_items_check [simp]: "data_items (check_all_uploads_finished w) = data_items w"
  by (simp add: check_all_uploads_finished_def split: prod.splits)

lemma data_items_connect_failed [simp]: "data_items (connect_failed e w) = data_items w"
  by (simp add: connect_failed_def)

lemma data_items_connect [simp]: "data_items (connect_to_server a w) = data_items w"
  by (simp add: connect_to_server_def Let_def split: sum.splits)

lemma data_items_stop_upload [simp]: "data_items (stop_upload r w) = data_items w"
  by (simp add: stop_upload_def)

lemma data_items_set_all_checked:
  "data_items (set_all_checked b w) =
     map (\<lambda>(k, it). (k, if \<not> uploaded it then it\<lparr>checkbox := b\<rparr> else it)) (data_items w)"
  by (simp add: set_all_checked_def)

lemma data_items_upload_data:
  "data_items (upload_data w) = data_items w \<or>
   data_items (upload_data w) =
     map (\<lambda>(k, it). (k, if is_selected it
                         then set_progress 0 (set_status status_uploading it) else it))
       (data_items w)"
  by (simp add: upload_data_def Let_def)

lemma data_items_add:
  "data_items (add_meter_data fs descr fp dt w) = data_items w \<or>
   (path_str fp \<notin> set (map fst (data_items w)) \<and>
    (\<exists>md. data_items (add_meter_data fs descr fp dt w) = data_items w @ [(path_str fp, new_item md)]))"
  by (auto simp: add_meter_data_def split: option.splits)

lemma update_first_keys [simp]: "map fst (update_first P f xs) = map fst xs"
  by (induction P f xs rule: update_first.induct) auto

lemma update_first_cases:
  "(k, it) \<in> set (update_first P f xs) \<Longrightarrow>
     (k, it) \<in> set xs \<or> (\<exists>it0. (k, it0) \<in> set xs \<and> P it0 \<and> it = f it0)"
  by (induction P f xs rule: update_first.induct) (auto split: if_splits)

lemma map_snd_keys [simp]: "map fst (map (\<lambda>(k, it). (k, g k it)) xs) = map fst xs"
  by (induction xs) auto

lemma map_snd_keys_comp [simp]: "map (fst \<circ> (\<lambda>(k, it). (k, g k it))) xs = map fst xs"
  by (induction xs) auto

lemma add_distinct:
  "distinct (queue_keys w) \<Longrightarrow> distinct (queue_keys (add_meter_data fs descr fp dt w))"
  using data_items_add [of fs descr fp dt w] by (auto simp: queue_keys_def)

lemma add_files_distinct:
  "distinct (queue_keys w) \<Longrightarrow>
   distinct (queue_keys (foldl (\<lambda>w' fp. add_meter_data fs descr fp dt w') w ps))"
  by (induction ps arbitrary: w) (auto simp: add_distinct)

lemma handle_distinct:
  assumes "distinct (queue_keys w)"
  shows "distinct (queue_keys (handle e w))"
proof (cases e)
  case (AddExcel fs descr ps)
  then show ?thesis using assms add_files_distinct by (simp add: add_excel_files_def)
next
  case (AddImage fs descr ps)
  then show ?thesis using assms add_files_distinct by (simp add: add_image_files_def)
next
  case (RemoveSelected sel)
  then show ?thesis using assms
    by (simp add: remove_selected_data_def queue_keys_def distinct_map_filter)
next
  case (ClearList r)
  then show ?thesis using assms by (simp add: clear_data_list_def queue_keys_def)
next
  case Upload
  then show ?thesis using assms data_items_upload_data [of w]
    by (auto simp: queue_keys_def)
next
  case (ToggleCheckbox k b)
  then show ?thesis using assms by (simp add: toggle_checkbox_def queue_keys_def)
qed (use assms in \<open>simp_all add: queue_keys_def select_all_data_def deselect_all_data_def
      data_items_set_all_checked on_upload_progress_def on_upload_finished_def Let_def\<close>)

lemma run_events_distinct:
  "distinct (queue_keys w) \<Longrightarrow> distinct (queue_keys (run_events es w))"
  unfolding run_events_def by (induction es arbitrary: w) (auto simp: handle_distinct)

lemma rows_from_same: "data_items w' = data_items w \<Longrightarrow> rows_from w w'"
  by (simp add: rows_from_def)

lemma rows_from_map:
  assumes "data_items w' = map (\<lambda>(k, it). (k, g k it)) (data_items w)"
    and "\<And>k it. (k, it) \<in> set (data_items w) \<Longrightarrow> g k it = it \<or> row_step it (g k it)"
  shows "rows_from w w'"
  unfolding rows_from_def using assms by fastforce

lemma rows_from_update_first:
  assumes "data_items w' = update_first P f (data_items w)"
    and "\<And>it. row_step it (f it)"
  shows "rows_from w w'"
  unfolding rows_from_def using assms update_first_cases by metis

lemma key_in: "(k, it) \<in> set xs \<Longrightarrow> k \<in> fst ` set xs"
  by force

lemma rows_from_add: "rows_from w (add_meter_data fs descr fp dt w)"
  using data_items_add [of fs descr fp dt w]
  by (auto simp: rows_from_def queue_keys_def dest: key_in)

lemma keys_add_mono: "set (queue_keys w) \<subseteq> set (queue_keys (add_meter_data fs descr fp dt w))"
  using data_items_add [of fs descr fp dt w] by (auto simp: queue_keys_def)

lemma rows_add_mono: "set (data_items w) \<subseteq> set (data_items (add_meter_data fs descr fp dt w))"
  using data_items_add [of fs descr fp dt w] by auto

lemma add_files_rows:
  "(k, it') \<in> set (data_items (foldl (\<lambda>w' fp. add_meter_data fs descr fp dt w') w ps)) \<Longrightarrow>
     (k, it') \<in> set (data_items w) \<or> (k \<notin> set (queue_keys w) \<and> (\<exists>md. it' = new_item md))"
proof (induction ps arbitrary: w)
  case Nil
  then show ?case by simp
next
  case (Cons p ps)
  let ?w1 = "add_meter_data fs descr p dt w"
  from Cons.prems have "(k, it') \<in> set (data_items (foldl (\<lambda>w' fp. add_meter_data fs descr fp dt w') ?w1 ps))"
    by simp
  then have "(k, it') \<in> set (data_items ?w1) \<or> (k \<notin> set (queue_keys ?w1) \<and> (\<exists>md. it' = new_item md))"
    by (rule Cons.IH)
  then show ?case
    using data_items_add [of fs descr p dt w] keys_add_mono [of w fs descr p dt]
    by (auto simp: queue_keys_def dest: key_in)
qed

lemma add_files_keys_mono:
  "set (queue_keys w) \<subseteq> set (queue_keys (foldl (\<lambda>w' fp. add_meter_data fs descr fp dt w') w ps))"
proof (induction ps arbitrary: w)
  case Nil
  then show ?case by simp
next
  case (Cons p ps)
  then show ?case using keys_add_mono [of w fs descr p dt] by (simp; blast)
qed

lemma rows_from_add_files:
  "rows_from w (foldl (\<lambda>w' fp. add_meter_data fs descr fp dt w') w ps)"
  unfolding rows_from_def using add_files_rows by blast

lemma rows_from_handle: "rows_from w (handle e w)"
proof (cases e)
  case (Connect a)
  then show ?thesis by (simp add: rows_from_same)
next
  case (AddExcel fs descr ps)
  then show ?thesis by (simp add: add_excel_files_def rows_from_add_files rows_from_same)
next
  case (AddImage fs descr ps)
  then show ?thesis by (simp add: add_image_files_def rows_from_add_files rows_from_same)
next
  case (RemoveSelected sel)
  then show ?thesis by (auto simp: remove_selected_data_def rows_from_def)
next
  case (ClearList r)
  then show ?thesis by (auto simp: clear_data_list_def rows_from_def)
next
  case SelectAll
  have "rows_from w (select_all_data w)"
    by (rule rows_from_map [where g = "\<lambda>k it. if \<not> uploaded it then it\<lparr>checkbox := True\<rparr> else it"])
       (auto simp: select_all_data_def data_items_set_all_checked intro: row_step.checked)
  with SelectAll show ?thesis by (simp add: rows_from_same)
next
  case DeselectAll
  have "rows_from w (deselect_all_data w)"
    by (rule rows_from_map [where g = "\<lambda>k it. if \<not> uploaded it then it\<lparr>checkbox := False\<rparr> else it"])
       (auto simp: deselect_all_data_def data_items_set_all_checked intro: row_step.checked)
  with DeselectAll show ?thesis by (simp add: rows_from_same)
next
  case (ToggleCheckbox k b)
  have "rows_from w (toggle_checkbox k b w)"
    by (rule rows_from_map [where g = "\<lambda>k' it. if k' = k then it\<lparr>checkbox := b\<rparr> else it"])
       (auto simp: toggle_checkbox_def intro: row_step.checked)
  with ToggleCheckbox show ?thesis by simp
next
  case Upload
  have "rows_from w (upload_data w)"
  proof (cases "data_items (upload_data w) = data_items w")
    case True
    then show ?thesis by (rule rows_from_same)
  next
    case False
    with data_items_upload_data [of w]
    have "data_items (upload_data w) =
        map (\<lambda>(k, it). (k, if is_selected it
                         then set_progress 0 (set_status status_uploading it) else it))
       (data_items w)" by blast
    then show ?thesis
      by (rule rows_from_map [where g = "\<lambda>k it. if is_selected it
                         then set_progress 0 (set_status status_uploading it) else it"])
         (auto intro: row_step.submitted)
  qed
  with Upload show ?thesis by (simp add: rows_from_same)
next
  case (StopUpload r)
  then show ?thesis by (simp add: rows_from_same)
next
  case (ProgressSignal f n)
  have "rows_from w (on_upload_progress f n w)"
    by (rule rows_from_update_first [where P = "has_name f" and f = "set_progress n"])
       (auto simp: on_upload_progress_def intro: row_step.progress)
  with ProgressSignal show ?thesis by simp
next
  case (FinishedSignal f ok m)
  have "rows_from w (on_upload_finished f ok m w)"
    by (rule rows_from_update_first [where P = "has_name f"
          and f = "\<lambda>it. if ok
                          then set_uploaded True (set_progress 100 (set_status status_success it))
                          else set_progress 0 (set_status status_failed it)"])
       (auto simp: on_upload_finished_def Let_def intro: row_step.succeeded row_step.failed)
  with FinishedSignal show ?thesis by simp
qed

lemma status_texts_differ:
  "status_waiting \<noteq> status_success" "status_uploading \<noteq> status_success"
  "status_failed \<noteq> status_success"
  by (simp_all add: status_waiting_def status_uploading_def status_failed_def status_success_def)

lemma row_step_succeeded:
  assumes "row_step it it'" and "status_label it = status_success \<longrightarrow> uploaded it"
  shows "status_label it' = status_success \<longrightarrow> uploaded it'"
  using assms
  by (cases rule: row_step.cases)
     (auto simp: set_progress_def set_status_def set_uploaded_def is_selected_def
           status_texts_differ)

lemma row_step_uploaded:
  assumes "row_step it it'" and "uploaded it"
  shows "uploaded it'"
  using assms
  by (cases rule: row_step.cases)
     (auto simp: set_progress_def set_status_def set_uploaded_def is_selected_def)

lemma handle_succeeded_uploaded:
  assumes "succeeded_uploaded w"
  shows "succeeded_uploaded (handle e w)"
  unfolding succeeded_uploaded_def
proof (intro allI impI)
  fix k it'
  assume row: "(k, it') \<in> set (data_items (handle e w))" and st: "status_label it' = status_success"
  from rows_from_handle [of w e] row
  consider "(k, it') \<in> set (data_items w)"
    | it where "(k, it) \<in> set (data_items w)" "row_step it it'"
    | md where "it' = new_item md"
    unfolding rows_from_def by blast
  then show "uploaded it'"
  proof cases
    case 1
    with assms st show ?thesis by (auto simp: succeeded_uploaded_def)
  next
    case 2
    with assms have "status_label it = status_success \<longrightarrow> uploaded it"
      by (auto simp: succeeded_uploaded_def)
    with 2 st show ?thesis using row_step_succeeded by blast
  next
    case 3
    with st show ?thesis by (simp add: new_item_def status_texts_differ)
  qed
qed

lemma run_events_succeeded_uploaded:
  "succeeded_uploaded w \<Longrightarrow> succeeded_uploaded (run_events es w)"
  unfolding run_events_def by (induction es arbitrary: w) (auto simp: handle_succeeded_uploaded)

lemma init_succeeded_uploaded: "succeeded_uploaded (init_window url did hk)"
  by (simp add: succeeded_uploaded_def init_window_def)

lemma keys_upload_data: "queue_keys (upload_data w) = queue_keys w"
  by (simp add: upload_data_def Let_def queue_keys_def)

lemma data_items_on_upload_finished:
  "data_items (on_upload_finished f ok m w) =
     update_first (has_name f)
       (\<lambda>it. if ok then set_uploaded True (set_progress 100 (set_status status_success it))
             else set_progress 0 (set_status status_failed it))
       (data_items w)"
  by (simp add: on_upload_finished_def Let_def)

lemma keys_unchanged:
  "queue_keys (connect_to_server a w) = queue_keys w"
  "queue_keys (select_all_data w) = queue_keys w"
  "queue_keys (deselect_all_data w) = queue_keys w"
  "queue_keys (toggle_checkbox k b w) = queue_keys w"
  "queue_keys (stop_upload r w) = queue_keys w"
  "queue_keys (on_upload_progress f n w) = queue_keys w"
  "queue_keys (on_upload_finished f ok m w) = queue_keys w"
  by (simp_all add: queue_keys_def select_all_data_def deselect_all_data_def
      data_items_set_all_checked toggle_checkbox_def on_upload_progress_def
      data_items_on_upload_finished)

lemma handle_keeps_key:
  assumes "k \<in> set (queue_keys w)" and "\<not> removes k e"
  shows "k \<in> set (queue_keys (handle e w))"
proof (cases e)
  case (AddExcel fs descr ps)
  then show ?thesis using assms add_files_keys_mono [of w fs descr EXCEL ps]
    by (auto simp: add_excel_files_def)
next
  case (AddImage fs descr ps)
  then show ?thesis using assms add_files_keys_mono [of w fs descr IMAGE ps]
    by (auto simp: add_image_files_def)
next
  case (RemoveSelected sel)
  then show ?thesis using assms
    by (auto simp: remove_selected_data_def queue_keys_def)
next
  case (ClearList r)
  then show ?thesis using assms by (simp add: clear_data_list_def)
qed (use assms in \<open>simp_all add: keys_unchanged keys_upload_data\<close>)

lemma handle_uploaded_at:
  assumes "uploaded_at k w" and "\<not> removes k e"
  shows "uploaded_at k (handle e w)"
  unfolding uploaded_at_def
proof (intro conjI allI impI)
  show "k \<in> set (queue_keys (handle e w))"
    using assms handle_keeps_key by (simp add: uploaded_at_def)
next
  fix it'
  assume row: "(k, it') \<in> set (data_items (handle e w))"
  from rows_from_handle [of w e] row
  consider "(k, it') \<in> set (data_items w)"
    | it where "(k, it) \<in> set (data_items w)" "row_step it it'"
    | "k \<notin> set (queue_keys w)"
    unfolding rows_from_def by blast
  then show "uploaded it'"
  proof cases
    case 1
    with assms show ?thesis by (simp add: uploaded_at_def)
  next
    case 2
    with assms show ?thesis using row_step_uploaded by (auto simp: uploaded_at_def)
  next
    case 3
    with assms show ?thesis by (simp add: uploaded_at_def)
  qed
qed

lemma run_events_uploaded_at:
  "uploaded_at k w \<Longrightarrow> \<forall>e \<in> set es. \<not> removes k e \<Longrightarrow> uploaded_at k (run_events es w)"
  unfolding run_events_def by (induction es arbitrary: w) (auto simp: handle_uploaded_at)

lemma finished_row:
  assumes "(k1, it1) \<in> set (data_items (on_upload_finished f True m w))"
    and "(k1, it1) \<notin> set (data_items w)"
  shows "status_label it1 = status_success \<and> \<not> checkbox it1 \<and> uploaded it1"
proof -
  from assms(1) have "(k1, it1) \<in> set (update_first (has_name f)
        (\<lambda>it. set_uploaded True (set_progress 100 (set_status status_success it))) (data_items w))"
    by (simp add: data_items_on_upload_finished)
  from update_first_cases [OF this] assms(2) obtain it0 where
    "it1 = set_uploaded True (set_progress 100 (set_status status_success it0))"
    by blast
  then show ?thesis by (simp add: set_uploaded_def set_progress_def set_status_def)
qed

lemmas ex_defs = ex_fs_def ex_descr_def ex_excel_path_def ex_window_def ex_first_batch_def
  ex_add_image_def ex_second_batch_def ex_uploaded_row_def ex_image_def

lemmas window_defs = run_events_def init_window_def connect_to_server_def py_strip_def is_space_def
  show_dialog_def log_msg_def new_APIClient_def rstrip_slash_def dict_get_def
  new_LowerLongPollingClient_def add_excel_files_def add_image_files_def add_meter_data_def
  create_meter_data_def detect_data_type_def py_lower_def EXCEL_EXTENSIONS_def IMAGE_EXTENSIONS_def
  update_data_count_def new_item_def is_excel_def is_image_def upload_data_def selected_items_def
  is_selected_def set_progress_def set_status_def set_uploaded_def on_upload_finished_def
  has_name_def check_all_uploads_finished_def count_statuses_def scan_status_def
  restore_upload_buttons_def status_waiting_def status_uploading_def status_success_def
  status_failed_def word_uploading_def word_success_def word_failed_def Let_def
  toggle_checkbox_def select_all_data_def set_all_checked_def

lemma first_batch_rows:
  "data_items (run_events ex_first_batch ex_window) = [([47, 97, 46, 120, 108, 115], ex_uploaded_row)]"
  by (simp add: ex_defs window_defs)

text \<open>
  C8. In a window reached from the initial one, take a row whose status is the success
  text. Whatever the operator and the workers do next, as long as the row is not removed
  from the queue (check boxes clicked, select all, further uploads, signals), the row stays
  in the queue with \<open>uploaded\<close> set, \<open>is_selected\<close> is false for it and
  \<open>upload_data\<close> does not submit it. A row that \<open>on_upload_finished\<close> changes on a
  success has the success text, its check box off and \<open>uploaded\<close> set.
\<close>

theorem succeeded_never_selected:
  assumes "w = run_events es0 (init_window url did hk)"
    and "(k, it) \<in> set (data_items w)" and "status_label it = status_success"
    and "\<forall>e \<in> set es. \<not> removes k e"
    and "w' = run_events es w"
  shows "k \<in> set (queue_keys w')
       \<and> (\<forall>it'. (k, it') \<in> set (data_items w') \<longrightarrow> uploaded it' \<and> \<not> is_selected it')
       \<and> k \<notin> set (map fst (selected_items w'))
       \<and> (\<forall>f m k1 it1. (k1, it1) \<in> set (data_items (on_upload_finished f True m w))
              \<and> (k1, it1) \<notin> set (data_items w)
            \<longrightarrow> status_label it1 = status_success \<and> \<not> checkbox it1 \<and> uploaded it1)"
proof -
  have "distinct (queue_keys (init_window url did hk))"
    by (simp add: queue_keys_def init_window_def)
  then have dist: "distinct (map fst (data_items w))"
    using assms(1) run_events_distinct [of "init_window url did hk" es0]
    by (simp add: queue_keys_def)
  have "succeeded_uploaded w"
    using assms(1) init_succeeded_uploaded run_events_succeeded_uploaded by simp
  with assms(2,3) have up: "uploaded it" by (auto simp: succeeded_uploaded_def)
  have only: "it2 = it" if "(k, it2) \<in> set (data_items w)" for it2
    using eq_key_imp_eq_value [OF dist that assms(2)] .
  have "k \<in> set (queue_keys w)"
    using assms(2) by (auto simp: queue_keys_def dest: key_in)
  with up only have "uploaded_at k w"
    unfolding uploaded_at_def by blast
  with assms(4,5) have at: "uploaded_at k w'" using run_events_uploaded_at by simp
  then have present: "k \<in> set (queue_keys w')"
    and rows: "\<forall>it'. (k, it') \<in> set (data_items w') \<longrightarrow> uploaded it' \<and> \<not> is_selected it'"
    by (auto simp: uploaded_at_def is_selected_def)
  from rows have unsel: "k \<notin> set (map fst (selected_items w'))"
    by (auto simp: selected_items_def)
  have forced: "\<forall>f m k1 it1. (k1, it1) \<in> set (data_items (on_upload_finished f True m w))
              \<and> (k1, it1) \<notin> set (data_items w)
            \<longrightarrow> status_label it1 = status_success \<and> \<not> checkbox it1 \<and> uploaded it1"
    using finished_row by blast
  from present rows unsel forced show ?thesis by (intro conjI)
qed

theorem succeeded_never_selected_witness:
  "([47, 97, 46, 120, 108, 115], ex_uploaded_row) \<in> set (data_items (run_events ex_first_batch ex_window))
   \<and> status_label ex_uploaded_row = status_success
   \<and> [47, 97, 46, 120, 108, 115] \<in> set (queue_keys
         (run_events [ToggleCheckbox [47, 97, 46, 120, 108, 115] True, SelectAll, Upload]
            (run_events ex_first_batch ex_window)))
   \<and> [47, 97, 46, 120, 108, 115] \<notin> set (map fst (selected_items
         (run_events [ToggleCheckbox [47, 97, 46, 120, 108, 115] True, SelectAll, Upload]
            (run_events ex_first_batch ex_window))))"
proof -
  have row: "([47, 97, 46, 120, 108, 115], ex_uploaded_row)
      \<in> set (data_items (run_events ex_first_batch ex_window))"
    by (simp add: first_batch_rows)
  have st: "status_label ex_uploaded_row = status_success"
    by (simp add: ex_uploaded_row_def)
  have kept: "\<forall>e \<in> set [ToggleCheckbox [47, 97, 46, 120, 108, 115] True, SelectAll, Upload].
      \<not> removes [47, 97, 46, 120, 108, 115] e"
    by simp
  have start: "run_events ex_first_batch ex_window =
      run_events ex_first_batch (init_window [104] [100] [107])"
    by (simp add: ex_window_def)
  from succeeded_never_selected [OF start row st kept refl] row st
  show ?thesis by simp
qed

text \<open>
  C10. When the path is already a key of the queue, \<open>add_meter_data\<close> only writes a log
  line: no row is created and every row is as it was. Adding the same path twice leaves
  the queue as adding it once does. In every window reached from the initial one the
  keys of the queue are distinct: at most one row per path.
\<close>

theorem add_meter_data_once:
  "(path_str fp \<in> set (queue_keys w) \<longrightarrow>
      add_meter_data fs descr fp dt w = log_msg (LogAlreadyInList (name fp)) w
      \<and> data_items (add_meter_data fs descr fp dt w) = data_items w)
   \<and> data_items (add_meter_data fs descr fp dt' (add_meter_data fs descr fp dt w)) =
       data_items (add_meter_data fs descr fp dt w)
   \<and> distinct (queue_keys (run_events es (init_window url did hk)))"
proof -
  have noop: "path_str fp \<in> set (queue_keys w) \<longrightarrow>
      add_meter_data fs descr fp dt w = log_msg (LogAlreadyInList (name fp)) w
      \<and> data_items (add_meter_data fs descr fp dt w) = data_items w"
    by (simp add: add_meter_data_def queue_keys_def)
  have twice: "data_items (add_meter_data fs descr fp dt' (add_meter_data fs descr fp dt w)) =
       data_items (add_meter_data fs descr fp dt w)"
    by (auto simp: add_meter_data_def create_meter_data_def split: option.splits)
  have "distinct (queue_keys (init_window url did hk))"
    by (simp add: queue_keys_def init_window_def)
  then have "distinct (queue_keys (run_events es (init_window url did hk)))"
    by (rule run_events_distinct)
  with noop twice show ?thesis by (intro conjI)
qed

theorem add_meter_data_once_witness:
  "path_str ex_excel_path \<in> set (queue_keys (run_events ex_first_batch ex_window))
   \<and> data_items (add_meter_data ex_fs ex_descr ex_excel_path EXCEL (run_events ex_first_batch ex_window))
       = [([47, 97, 46, 120, 108, 115], ex_uploaded_row)]
   \<and> distinct (queue_keys (run_events (ex_first_batch @ ex_second_batch) ex_window))"
proof -
  have present: "path_str ex_excel_path \<in> set (queue_keys (run_events ex_first_batch ex_window))"
    by (simp add: queue_keys_def first_batch_rows ex_excel_path_def)
  from add_meter_data_once [of ex_excel_path "run_events ex_first_batch ex_window" ex_fs ex_descr
      EXCEL EXCEL "ex_first_batch @ ex_second_batch" "[104]" "[100]" "[107]"] present
  show ?thesis by (simp add: first_batch_rows ex_window_def [symmetric])
qed

lemma foldl_scan_status:
  "foldl scan_status (a, s, f) labels =
     (a \<and> list_all (\<lambda>l. \<not> py_in word_uploading l) labels,
      s + length (filter (\<lambda>l. \<not> py_in word_uploading l \<and> py_in word_success l) labels),
      f + length (filter (\<lambda>l. \<not> py_in word_uploading l \<and> \<not> py_in word_success l
                               \<and> py_in word_failed l) labels))"
  by (induction labels arbitrary: a s f) (auto simp: scan_status_def)

lemma count_statuses_all_rows:
  "count_statuses w =
     (list_all (\<lambda>(k, it). \<not> py_in word_uploading (status_label it)) (data_items w),
      length (filter (\<lambda>(k, it). \<not> py_in word_uploading (status_label it)
                                 \<and> py_in word_success (status_label it)) (data_items w)),
      length (filter (\<lambda>(k, it). \<not> py_in word_uploading (status_label it)
                                 \<and> \<not> py_in word_success (status_label it)
                                 \<and> py_in word_failed (status_label it)) (data_items w)))"
  by (simp add: count_statuses_def foldl_scan_status list_all_iff filter_map comp_def
      case_prod_unfold)

lemma count_statuses_check: "count_statuses (check_all_uploads_finished w) = count_statuses w"
  by (simp add: count_statuses_def)

text \<open>
  C6 (amended). Evaluating \<open>check_all_uploads_finished\<close> a second time finds the same
  tally, and the check changes no row of the queue. The tally is taken over all rows of
  the queue: it is finished when no label holds the uploading text, and counts every row
  whose label holds the success text, or the failure text, whichever batch the row was
  uploaded in. When the check fires (finished, and some count positive) it appends one log
  line and one dialog with the tally and resets the four buttons; otherwise it changes
  nothing.
\<close>

theorem check_all_uploads_finished_tally:
  "count_statuses (check_all_uploads_finished w) = count_statuses w
   \<and> data_items (check_all_uploads_finished w) = data_items w
   \<and> count_statuses w =
       (list_all (\<lambda>(k, it). \<not> py_in word_uploading (status_label it)) (data_items w),
        length (filter (\<lambda>(k, it). \<not> py_in word_uploading (status_label it)
                                   \<and> py_in word_success (status_label it)) (data_items w)),
        length (filter (\<lambda>(k, it). \<not> py_in word_uploading (status_label it)
                                   \<and> \<not> py_in word_success (status_label it)
                                   \<and> py_in word_failed (status_label it)) (data_items w)))
   \<and> (\<forall>s f. count_statuses w = (True, s, f) \<and> (s > 0 \<or> f > 0) \<longrightarrow>
          log_text (check_all_uploads_finished w) = log_text w @ [LogUploadDone s f]
          \<and> dialogs (check_all_uploads_finished w) = dialogs w @ [DlgUploadDone s f]
          \<and> upload_btn (check_all_uploads_finished w)
          \<and> \<not> stop_upload_btn (check_all_uploads_finished w)
          \<and> add_excel_btn (check_all_uploads_finished w)
          \<and> add_image_btn (check_all_uploads_finished w))
   \<and> (\<forall>fin s f. count_statuses w = (fin, s, f) \<and> \<not> (fin \<and> (s > 0 \<or> f > 0)) \<longrightarrow>
          check_all_uploads_finished w = w)"
proof -
  have fires: "\<forall>s f. count_statuses w = (True, s, f) \<and> (s > 0 \<or> f > 0) \<longrightarrow>
          log_text (check_all_uploads_finished w) = log_text w @ [LogUploadDone s f]
          \<and> dialogs (check_all_uploads_finished w) = dialogs w @ [DlgUploadDone s f]
          \<and> upload_btn (check_all_uploads_finished w)
          \<and> \<not> stop_upload_btn (check_all_uploads_finished w)
          \<and> add_excel_btn (check_all_uploads_finished w)
          \<and> add_image_btn (check_all_uploads_finished w)"
    by (auto simp: check_all_uploads_finished_def show_dialog_def log_msg_def
        restore_upload_buttons_def)
  have idle: "\<forall>fin s f. count_statuses w = (fin, s, f) \<and> \<not> (fin \<and> (s > 0 \<or> f > 0)) \<longrightarrow>
          check_all_uploads_finished w = w"
    by (auto simp: check_all_uploads_finished_def)
  from count_statuses_check data_items_check count_statuses_all_rows fires idle
  show ?thesis by (intro conjI)
qed

lemma both_batches_tally:
  "count_statuses (run_events (ex_first_batch @ ex_second_batch) ex_window) = (True, 2, 0)"
  by (simp add: ex_defs window_defs)

theorem check_all_uploads_finished_tally_witness:
  "count_statuses (run_events (ex_first_batch @ ex_second_batch) ex_window) = (True, 2, 0)
   \<and> log_text (check_all_uploads_finished (run_events (ex_first_batch @ ex_second_batch) ex_window))
      = log_text (run_events (ex_first_batch @ ex_second_batch) ex_window) @ [LogUploadDone 2 0]"
  using check_all_uploads_finished_tally
    [of "run_events (ex_first_batch @ ex_second_batch) ex_window"] both_batches_tally
  by simp

text \<open>
  C6 as stated fails. After \<open>/a.xls\<close> was uploaded in a first batch, the second batch
  holds \<open>/b.png\<close> alone, yet the tally at its end is 2 successes; and evaluating the
  check once more on that window changes the window.
\<close>

theorem tally_counts_earlier_batches:
  "map fst (selected_items (run_events (ex_first_batch @ [ex_add_image]) ex_window))
     = [[47, 98, 46, 112, 110, 103]]
   \<and> count_statuses (run_events (ex_first_batch @ ex_second_batch) ex_window) = (True, 2, 0)
   \<and> check_all_uploads_finished (run_events (ex_first_batch @ ex_second_batch) ex_window)
      \<noteq> run_events (ex_first_batch @ ex_second_batch) ex_window"
proof -
  have batch: "map fst (selected_items (run_events (ex_first_batch @ [ex_add_image]) ex_window))
     = [[47, 98, 46, 112, 110, 103]]"
    by (simp add: ex_defs window_defs)
  have "log_text (check_all_uploads_finished (run_events (ex_first_batch @ ex_second_batch) ex_window))
      \<noteq> log_text (run_events (ex_first_batch @ ex_second_batch) ex_window)"
    by (simp add: ex_defs window_defs)
  then have changed: "check_all_uploads_finished (run_events (ex_first_batch @ ex_second_batch) ex_window)
      \<noteq> run_events (ex_first_batch @ ex_second_batch) ex_window"
    by auto
  from batch both_batches_tally changed show ?thesis by (intro conjI)
qed









section \<open>Properties of the heartbeat thread\<close>

lemma exec_Nil [simp]: "exec [] s = s"
  by (simp add: exec_def)

lemma exec_Cons [simp]: "exec (a # acts) s = exec acts (step a s)"
  by (simp add: exec_def)

lemma exec_append [simp]: "exec (xs @ ys) s = exec ys (exec xs s)"
  by (simp add: exec_def)

lemma exec_snoc: "exec (acts @ [a]) s = step a (exec acts s)"
  by simp

lemma exec_ticks: "exec (replicate n Tick) s = s\<lparr>now := now s + n\<rparr>"
  by (induction n arbitrary: s) simp_all

lemma heartbeat_done_fields [simp]:
  "pc (heartbeat_done r s) = pc s" "now (heartbeat_done r s) = now s"
  "wake (heartbeat_done r s) = wake s" "sent (heartbeat_done r s) = sent s"
  "running (cl (heartbeat_done r s)) = running (cl s)"
  "heartbeat_interval (cl (heartbeat_done r s)) = heartbeat_interval (cl s)"
  by (simp_all add: heartbeat_done_def split: post_outcome.splits)

lemma step_loop_inv:
  assumes "loop_inv s" and "a \<noteq> CallStop"
  shows "loop_inv (step a s)"
proof (cases a)
  case Tick
  with assms show ?thesis by (auto simp: loop_inv_def in_loop_def)
next
  case CallStop
  with assms show ?thesis by simp
next
  case (ThreadStep d r)
  with assms show ?thesis
    by (cases "pc s") (auto simp: loop_inv_def in_loop_def thread_step_def)
qed

lemma exec_loop_inv:
  "loop_inv s \<Longrightarrow> CallStop \<notin> set acts \<Longrightarrow> loop_inv (exec acts s)"
  by (induction acts arbitrary: s) (auto simp: step_loop_inv)

lemma step_exit_inv: "exit_inv s \<Longrightarrow> exit_inv (step a s)"
proof (cases a)
  case Tick
  then show "exit_inv s \<Longrightarrow> ?thesis" by (auto simp: exit_inv_def in_loop_def)
next
  case CallStop
  then show "exit_inv s \<Longrightarrow> ?thesis" by (auto simp: exit_inv_def in_loop_def stop_def)
next
  case (ThreadStep d r)
  then show "exit_inv s \<Longrightarrow> ?thesis"
    by (cases "pc s") (auto simp: exit_inv_def in_loop_def thread_step_def split: post_outcome.splits)
qed

lemma exec_exit_inv: "exit_inv s \<Longrightarrow> exit_inv (exec acts s)"
  by (induction acts arbitrary: s) (auto simp: step_exit_inv)

lemma next_probe:
  assumes "pc s = InHeartbeat" and "wake s \<le> now s" and "running (cl s)"
  shows "pc (exec ([ThreadStep d1 r, ThreadStep d2 r2, ThreadStep d3 r3]
                   @ replicate (heartbeat_interval (cl s)) Tick
                   @ [ThreadStep d4 r4, ThreadStep d5 r5, ThreadStep d6 r6]) s) = InHeartbeat
       \<and> sent (exec ([ThreadStep d1 r, ThreadStep d2 r2, ThreadStep d3 r3]
                   @ replicate (heartbeat_interval (cl s)) Tick
                   @ [ThreadStep d4 r4, ThreadStep d5 r5, ThreadStep d6 r6]) s)
           = sent s @ [(now s + heartbeat_interval (cl s), Heartbeat, 10)]
       \<and> running (cl (exec ([ThreadStep d1 r, ThreadStep d2 r2, ThreadStep d3 r3]
                   @ replicate (heartbeat_interval (cl s)) Tick
                   @ [ThreadStep d4 r4, ThreadStep d5 r5, ThreadStep d6 r6]) s))"
  using assms by (simp add: exec_ticks thread_step_def)

text \<open>
  C2. In a run without a call of \<open>stop\<close> the thread never leaves the loop, whatever the
  heartbeat posts return or raise; a thread that has left the loop was stopped, and the
  running flag is false. After a heartbeat post has ended in any way (a reply, a timeout,
  a connection error, another exception) with the flag still set, the thread goes on:
  it sleeps for the heartbeat interval and posts the next heartbeat.
\<close>

theorem loop_ends_only_by_stop:
  "(CallStop \<notin> set acts \<longrightarrow> in_loop (exec acts (thread_started c)))
   \<and> (\<not> in_loop (exec acts (thread_started c)) \<longrightarrow>
        CallStop \<in> set acts \<and> \<not> running (cl (exec acts (thread_started c))))
   \<and> (pc s = InHeartbeat \<and> wake s \<le> now s \<and> running (cl s) \<longrightarrow>
        pc (exec ([ThreadStep d1 r, ThreadStep d2 r2, ThreadStep d3 r3]
                   @ replicate (heartbeat_interval (cl s)) Tick
                   @ [ThreadStep d4 r4, ThreadStep d5 r5, ThreadStep d6 r6]) s) = InHeartbeat
        \<and> sent (exec ([ThreadStep d1 r, ThreadStep d2 r2, ThreadStep d3 r3]
                   @ replicate (heartbeat_interval (cl s)) Tick
                   @ [ThreadStep d4 r4, ThreadStep d5 r5, ThreadStep d6 r6]) s)
           = sent s @ [(now s + heartbeat_interval (cl s), Heartbeat, 10)]
        \<and> running (cl (exec ([ThreadStep d1 r, ThreadStep d2 r2, ThreadStep d3 r3]
                   @ replicate (heartbeat_interval (cl s)) Tick
                   @ [ThreadStep d4 r4, ThreadStep d5 r5, ThreadStep d6 r6]) s)))"
proof -
  have start: "loop_inv (thread_started c)" "exit_inv (thread_started c)"
    by (simp_all add: loop_inv_def exit_inv_def in_loop_def thread_started_def)
  have stays: "CallStop \<notin> set acts \<longrightarrow> in_loop (exec acts (thread_started c))"
    using exec_loop_inv [OF start(1), of acts] by (auto simp: loop_inv_def in_loop_def)
  have "exit_inv (exec acts (thread_started c))"
    using start(2) by (rule exec_exit_inv)
  with stays have leaves: "\<not> in_loop (exec acts (thread_started c)) \<longrightarrow>
        CallStop \<in> set acts \<and> \<not> running (cl (exec acts (thread_started c)))"
    by (auto simp: exit_inv_def)
  from stays leaves next_probe [of s d1 r d2 r2 d3 r3 d4 r4 d5 r5 d6 r6]
  show ?thesis by blast
qed

lemmas thread_defs = thread_started_def thread_step_def heartbeat_done_def stop_def
  new_LowerLongPollingClient_def rstrip_slash_def ex_client_def Go_def ex_until_probing_def
  ex_until_probed_def ex_until_sleep_def exec_ticks

lemma ex_probing_state:
  "exec ex_until_probing (thread_started ex_client) =
     \<lparr>cl = ex_client\<lparr>running := True\<rparr>, pc = InHeartbeat, now = 1, wake = 1,
      sent = [(0, Heartbeat, 10)], logs = [HbStart]\<rparr>"
  by (simp add: thread_defs)

lemma ex_sleep_state:
  "exec ex_until_sleep (thread_started ex_client) =
     \<lparr>cl = ex_client\<lparr>connected := True, running := True\<rparr>, pc = InSleep, now = 1, wake = 31,
      sent = [(0, Heartbeat, 10)], logs = [HbStart, HbConnected, HbOk]\<rparr>"
  by (simp add: thread_defs)

theorem loop_ends_only_by_stop_witness:
  "in_loop (exec ex_until_sleep (thread_started ex_client))
   \<and> pc (exec ex_until_probing (thread_started ex_client)) = InHeartbeat
   \<and> sent (exec ([ThreadStep 0 (RaisedConnectionError []), Go, Go] @ replicate 30 Tick @ [Go, Go, Go])
             (exec ex_until_probing (thread_started ex_client)))
      = [(0, Heartbeat, 10), (31, Heartbeat, 10)]"
proof -
  have nostop: "CallStop \<notin> set ex_until_sleep"
    by (simp add: ex_until_sleep_def ex_until_probed_def ex_until_probing_def Go_def)
  have probing: "pc (exec ex_until_probing (thread_started ex_client)) = InHeartbeat"
    "wake (exec ex_until_probing (thread_started ex_client))
       \<le> now (exec ex_until_probing (thread_started ex_client))"
    "running (cl (exec ex_until_probing (thread_started ex_client)))"
    "heartbeat_interval (cl (exec ex_until_probing (thread_started ex_client))) = 30"
    "sent (exec ex_until_probing (thread_started ex_client)) = [(0, Heartbeat, 10)]"
    "now (exec ex_until_probing (thread_started ex_client)) = 1"
    by (simp_all add: ex_probing_state) (simp_all add: ex_client_def new_LowerLongPollingClient_def)
  from loop_ends_only_by_stop [of ex_until_sleep ex_client
      "exec ex_until_probing (thread_started ex_client)" 0 "RaisedConnectionError []"
      0 "Response 200" 0 "Response 200" 0 "Response 200" 0 "Response 200" 0 "Response 200"]
    nostop probing
  show ?thesis by (simp add: Go_def)
qed

lemma step_now_mono: "now s \<le> now (step a s)"
  by (cases a; cases "pc s") (auto simp: thread_step_def stop_def split: post_outcome.splits)

lemma step_sleeping:
  assumes "pc s = InSleep" and "now (step a s) < wake s"
  shows "pc (step a s) = InSleep \<and> wake (step a s) = wake s"
  using assms by (cases a) (auto simp: thread_step_def stop_def split: if_splits)

lemma exec_sleeping:
  assumes "pc s = InSleep" and "now (exec acts s) < wake s"
  shows "pc (exec acts s) = InSleep \<and> wake (exec acts s) = wake s"
  using assms(2)
proof (induction acts rule: rev_induct)
  case Nil
  with assms(1) show ?case by simp
next
  case (snoc a acts)
  have "now (exec acts s) \<le> now (step a (exec acts s))" by (rule step_now_mono)
  with snoc.prems have earlier: "now (exec acts s) < wake s" by simp
  then have ih: "pc (exec acts s) = InSleep" "wake (exec acts s) = wake s"
    using snoc.IH by simp_all
  from snoc.prems ih(2) have "now (step a (exec acts s)) < wake (exec acts s)" by simp
  with ih show ?case using step_sleeping [of "exec acts s" a] by simp
qed

text \<open>
  C3 (amended). \<open>stop\<close> clears the flag and returns at once: it does not wait, and the
  thread is where it was. \<open>time.sleep\<close> is entered for the whole heartbeat interval,
  and whatever happens meanwhile (calls of \<open>stop\<close> included) the thread stays in it
  until that time has passed. Once it has passed and the flag is cleared, the next two
  steps of the thread leave the loop; a thread stopped during a heartbeat post leaves the
  loop within three steps of the end of the post.
\<close>

theorem sleep_runs_to_its_end:
  "now (stop s) = now s \<and> pc (stop s) = pc s \<and> wake (stop s) = wake s \<and> \<not> running (cl (stop s))
   \<and> (pc s = AtSleep \<longrightarrow>
         pc (thread_step d r s) = InSleep
         \<and> wake (thread_step d r s) = now s + heartbeat_interval (cl s))
   \<and> (pc s = InSleep \<and> now (exec acts s) < wake s \<longrightarrow> pc (exec acts s) = InSleep)
   \<and> (pc s = InSleep \<and> wake s \<le> now s \<and> \<not> running (cl s) \<longrightarrow>
         pc (exec [ThreadStep d1 r1, ThreadStep d2 r2] s) = AtOffline)
   \<and> (pc s = InHeartbeat \<and> wake s \<le> now s \<and> \<not> running (cl s) \<longrightarrow>
         pc (exec [ThreadStep d1 r1, ThreadStep d2 r2, ThreadStep d3 r3] s) = AtOffline)"
proof -
  have returns: "now (stop s) = now s \<and> pc (stop s) = pc s \<and> wake (stop s) = wake s
      \<and> \<not> running (cl (stop s))"
    by (simp add: stop_def)
  have begins: "pc s = AtSleep \<longrightarrow>
         pc (thread_step d r s) = InSleep
         \<and> wake (thread_step d r s) = now s + heartbeat_interval (cl s)"
    by (simp add: thread_step_def)
  have sleeps: "pc s = InSleep \<and> now (exec acts s) < wake s \<longrightarrow> pc (exec acts s) = InSleep"
    using exec_sleeping by blast
  have wakes: "pc s = InSleep \<and> wake s \<le> now s \<and> \<not> running (cl s) \<longrightarrow>
         pc (exec [ThreadStep d1 r1, ThreadStep d2 r2] s) = AtOffline"
    by (simp add: thread_step_def)
  have probe: "pc s = InHeartbeat \<and> wake s \<le> now s \<and> \<not> running (cl s) \<longrightarrow>
         pc (exec [ThreadStep d1 r1, ThreadStep d2 r2, ThreadStep d3 r3] s) = AtOffline"
    by (simp add: thread_step_def)
  from returns begins sleeps wakes probe show ?thesis by (intro conjI) simp_all
qed

theorem sleep_runs_to_its_end_witness:
  "pc (exec ex_until_sleep (thread_started ex_client)) = InSleep
   \<and> wake (exec ex_until_sleep (thread_started ex_client)) = 31
   \<and> now (exec (CallStop # replicate 29 Tick @ [Go]) (exec ex_until_sleep (thread_started ex_client))) = 30
   \<and> pc (exec (CallStop # replicate 29 Tick @ [Go]) (exec ex_until_sleep (thread_started ex_client)))
      = InSleep"
proof -
  have sleeping: "pc (exec ex_until_sleep (thread_started ex_client)) = InSleep"
    "wake (exec ex_until_sleep (thread_started ex_client)) = 31"
    by (simp_all add: ex_sleep_state)
  have later: "now (exec (CallStop # replicate 29 Tick @ [Go])
      (exec ex_until_sleep (thread_started ex_client))) = 30"
    by (simp add: ex_sleep_state) (simp add: thread_defs)
  from sleep_runs_to_its_end [of "exec ex_until_sleep (thread_started ex_client)" _ _
      "CallStop # replicate 29 Tick @ [Go]"] sleeping later
  show ?thesis by simp
qed

text \<open>
  C3 as stated fails. With the heartbeat interval 30 of \<open>__init__\<close> and the probe
  timeout 10, let \<open>stop\<close> be called at time 1, just after the thread has entered
  \<open>time.sleep\<close>: 29 units of time later the thread is still inside the sleep and has
  not posted the offline notice.
\<close>

theorem stop_waits_for_the_sleep:
  "now (exec ex_until_sleep (thread_started ex_client)) = 1
   \<and> now (exec (CallStop # replicate 29 Tick @ [Go]) (exec ex_until_sleep (thread_started ex_client))) = 30
   \<and> pc (exec (CallStop # replicate 29 Tick @ [Go]) (exec ex_until_sleep (thread_started ex_client)))
      = InSleep
   \<and> offline_posts (exec (CallStop # replicate 29 Tick @ [Go])
        (exec ex_until_sleep (thread_started ex_client))) = []"
  by (simp add: ex_sleep_state) (simp add: thread_defs offline_posts_def)

lemma step_offline_inv: "offline_inv s \<Longrightarrow> offline_inv (step a s)"
  by (cases a; cases "pc s")
     (auto simp: offline_inv_def offline_posts_def thread_step_def stop_def heartbeat_done_def
           split: post_outcome.splits if_splits)

lemma exec_offline_inv: "offline_inv s \<Longrightarrow> offline_inv (exec acts s)"
  by (induction acts arbitrary: s) (auto simp: step_offline_inv)

lemma step_returned_inv: "returned_inv s \<Longrightarrow> returned_inv (step a s)"
  by (cases a; cases "pc s")
     (auto simp: returned_inv_def thread_step_def stop_def heartbeat_done_def
           split: post_outcome.splits if_splits)

lemma exec_returned_inv: "returned_inv s \<Longrightarrow> returned_inv (exec acts s)"
  by (induction acts arbitrary: s) (auto simp: step_returned_inv)

lemma departure:
  assumes "pc s = AtOffline"
  shows "pc (exec ([ThreadStep d r0] @ replicate d Tick @ [ThreadStep d1 r, ThreadStep d2 r2]) s) = Returned
    \<and> \<not> connected (cl (exec ([ThreadStep d r0] @ replicate d Tick @ [ThreadStep d1 r, ThreadStep d2 r2]) s))
    \<and> sent (exec ([ThreadStep d r0] @ replicate d Tick @ [ThreadStep d1 r, ThreadStep d2 r2]) s)
        = sent s @ [(now s, Offline, 5)]
    \<and> logs (exec ([ThreadStep d r0] @ replicate d Tick @ [ThreadStep d1 r, ThreadStep d2 r2]) s)
        = logs s @ (case r of Response code \<Rightarrow> [HbOfflineSent] | _ \<Rightarrow> []) @ [HbStopped]"
  using assms by (simp add: exec_ticks thread_step_def split: post_outcome.splits)

text \<open>
  C7 (amended). Once the loop is left, \<open>start\<close> posts the offline notice once, with the
  timeout 5; whatever the post returns or raises, \<open>start\<close> goes on, clears \<open>connected\<close>
  and returns, and a post that raised leaves no log entry (a reply of any status is
  logged as sent). No run posts the notice twice, and a run that has returned has posted
  it once. \<open>is_connected\<close> is false as soon as \<open>stop\<close> has been called, wherever the
  thread then is. \<open>quit_qt_application\<close>, for an authenticated window with a client, ends
  with one more offline call through the client, with the client's timeout, and logs
  its failure; with a heartbeat thread it has called \<open>stop\<close> before.
\<close>

theorem departure_notice:
  "(pc s = AtOffline \<longrightarrow>
      pc (exec ([ThreadStep d r0] @ replicate d Tick @ [ThreadStep d1 r, ThreadStep d2 r2]) s) = Returned
      \<and> \<not> connected (cl (exec ([ThreadStep d r0] @ replicate d Tick @ [ThreadStep d1 r, ThreadStep d2 r2]) s))
      \<and> sent (exec ([ThreadStep d r0] @ replicate d Tick @ [ThreadStep d1 r, ThreadStep d2 r2]) s)
          = sent s @ [(now s, Offline, 5)]
      \<and> logs (exec ([ThreadStep d r0] @ replicate d Tick @ [ThreadStep d1 r, ThreadStep d2 r2]) s)
          = logs s @ (case r of Response code \<Rightarrow> [HbOfflineSent] | _ \<Rightarrow> []) @ [HbStopped])
   \<and> length (offline_posts (exec acts (thread_started c))) \<le> 1
   \<and> (pc (exec acts (thread_started c)) = Returned \<longrightarrow>
        length (offline_posts (exec acts (thread_started c))) = 1
        \<and> \<not> connected (cl (exec acts (thread_started c))))
   \<and> \<not> is_connected (stop s)
   \<and> (authenticated w \<and> client w = Some a \<longrightarrow>
        (\<exists>calls. quit_qt_application (Inl e) w =
                   calls @ [SetDeviceOffline (py_strip (device_id_input w)) (cfg_hardware_key w) (timeout a),
                            LogSetOfflineFailed e]
                \<and> quit_qt_application (Inr v) w =
                   calls @ [SetDeviceOffline (py_strip (device_id_input w)) (cfg_hardware_key w) (timeout a),
                            LogDeviceOffline]
                \<and> (long_polling_thread w \<noteq> None \<longrightarrow> StopHeartbeat \<in> set calls)))"
proof -
  have "offline_inv (thread_started c)"
    by (simp add: offline_inv_def offline_posts_def thread_started_def)
  then have posts: "offline_inv (exec acts (thread_started c))"
    by (rule exec_offline_inv)
  have "returned_inv (thread_started c)"
    by (simp add: returned_inv_def thread_started_def)
  then have cleared: "returned_inv (exec acts (thread_started c))"
    by (rule exec_returned_inv)
  from posts have once: "length (offline_posts (exec acts (thread_started c))) \<le> 1"
    by (auto simp: offline_inv_def split: if_splits)
  from posts cleared have finished: "pc (exec acts (thread_started c)) = Returned \<longrightarrow>
        length (offline_posts (exec acts (thread_started c))) = 1
        \<and> \<not> connected (cl (exec acts (thread_started c)))"
    by (auto simp: offline_inv_def returned_inv_def)
  have reported: "\<not> is_connected (stop s)"
    by (simp add: is_connected_def stop_def)
  have quit: "authenticated w \<and> client w = Some a \<longrightarrow>
        (\<exists>calls. quit_qt_application (Inl e) w =
                   calls @ [SetDeviceOffline (py_strip (device_id_input w)) (cfg_hardware_key w) (timeout a),
                            LogSetOfflineFailed e]
                \<and> quit_qt_application (Inr v) w =
                   calls @ [SetDeviceOffline (py_strip (device_id_input w)) (cfg_hardware_key w) (timeout a),
                            LogDeviceOffline]
                \<and> (long_polling_thread w \<noteq> None \<longrightarrow> StopHeartbeat \<in> set calls))"
    by (auto simp: quit_qt_application_def)
  from departure [of s d r0 d1 r d2 r2] once finished reported quit show ?thesis by blast
qed

lemma ex_probed_state:
  "exec ex_until_probed (thread_started ex_client) =
     \<lparr>cl = ex_client\<lparr>connected := True, running := True\<rparr>, pc = AtSleepTest, now = 1, wake = 1,
      sent = [(0, Heartbeat, 10)], logs = [HbStart, HbConnected, HbOk]\<rparr>"
  by (simp add: thread_defs)

theorem departure_notice_witness:
  "pc (exec ([CallStop, Go, Go]) (exec ex_until_probed (thread_started ex_client))) = AtOffline
   \<and> logs (exec ([ThreadStep 2 (Response 200)] @ replicate 2 Tick @ [ThreadStep 0 RaisedTimeout, Go])
        (exec ([CallStop, Go, Go]) (exec ex_until_probed (thread_started ex_client))))
      = [HbStart, HbConnected, HbOk, HbStopping, HbStopped]
   \<and> sent (exec ([ThreadStep 2 (Response 200)] @ replicate 2 Tick @ [ThreadStep 0 RaisedTimeout, Go])
        (exec ([CallStop, Go, Go]) (exec ex_until_probed (thread_started ex_client))))
      = [(0, Heartbeat, 10), (1, Offline, 5)]"
proof -
  have at: "exec ([CallStop, Go, Go]) (exec ex_until_probed (thread_started ex_client)) =
     \<lparr>cl = ex_client\<lparr>connected := True, running := False\<rparr>, pc = AtOffline, now = 1, wake = 1,
      sent = [(0, Heartbeat, 10)], logs = [HbStart, HbConnected, HbOk, HbStopping]\<rparr>"
    by (simp add: ex_probed_state) (simp add: thread_defs)
  then have pc: "pc (exec ([CallStop, Go, Go]) (exec ex_until_probed (thread_started ex_client))) = AtOffline"
    by simp
  from departure_notice [of "exec ([CallStop, Go, Go]) (exec ex_until_probed (thread_started ex_client))"
      2 "Response 200" 0 RaisedTimeout 0 "Response 200"] pc at
  show ?thesis by (simp add: Go_def)
qed

text \<open>
  C7 as stated fails. After a first successful heartbeat \<open>is_connected\<close> is true; a
  call of \<open>stop\<close> makes it false while the thread is still in the loop and no offline
  notice has been posted.
\<close>

theorem disconnected_before_departure:
  "is_connected (exec ex_until_probed (thread_started ex_client))
   \<and> \<not> is_connected (exec [CallStop] (exec ex_until_probed (thread_started ex_client)))
   \<and> in_loop (exec [CallStop] (exec ex_until_probed (thread_started ex_client)))
   \<and> offline_posts (exec [CallStop] (exec ex_until_probed (thread_started ex_client))) = []"
  by (simp add: ex_probed_state)
     (simp add: thread_defs is_connected_def in_loop_def offline_posts_def)

text \<open>
  C5 (amended). The check is made by \<open>connect_to_server\<close>: when the server address, the
  device id (both stripped) or the hardware key is empty, it shows the warning and
  changes nothing else, so no client is created and no heartbeat thread is started; from
  the initial window the thread stays \<open>None\<close>. \<open>start\<close> itself makes no check: the first
  three steps of a started thread post a heartbeat whatever the client's credentials
  are.
\<close>

theorem connect_needs_credentials:
  "(py_strip (server_input w) = [] \<or> py_strip (device_id_input w) = [] \<or> cfg_hardware_key w = []
      \<longrightarrow> connect_to_server a w = show_dialog DlgFillRequired w
          \<and> long_polling_thread (connect_to_server a w) = long_polling_thread w
          \<and> client (connect_to_server a w) = client w
          \<and> authenticated (connect_to_server a w) = authenticated w)
   \<and> long_polling_thread (connect_to_server a (init_window url [] hk)) = None
   \<and> long_polling_thread (connect_to_server a (init_window url did [])) = None
   \<and> sent (exec [ThreadStep d1 r1, ThreadStep d2 r2, ThreadStep d3 r3] (thread_started c))
       = [(0, Heartbeat, 10)]"
proof -
  have guard: "py_strip (server_input w) = [] \<or> py_strip (device_id_input w) = []
        \<or> cfg_hardware_key w = []
      \<longrightarrow> connect_to_server a w = show_dialog DlgFillRequired w
          \<and> long_polling_thread (connect_to_server a w) = long_polling_thread w
          \<and> client (connect_to_server a w) = client w
          \<and> authenticated (connect_to_server a w) = authenticated w"
    by (auto simp: connect_to_server_def show_dialog_def)
  have no_id: "long_polling_thread (connect_to_server a (init_window url [] hk)) = None"
    by (simp add: connect_to_server_def show_dialog_def init_window_def py_strip_def)
  have no_key: "long_polling_thread (connect_to_server a (init_window url did [])) = None"
    by (simp add: connect_to_server_def show_dialog_def init_window_def)
  have probes: "sent (exec [ThreadStep d1 r1, ThreadStep d2 r2, ThreadStep d3 r3] (thread_started c))
       = [(0, Heartbeat, 10)]"
    by (simp add: thread_started_def thread_step_def)
  from guard no_id no_key probes show ?thesis by (intro conjI)
qed

theorem connect_needs_credentials_witness:
  "py_strip (device_id_input (init_window [104] [32] [107])) = []
   \<and> connect_to_server (Inr (JObj [])) (init_window [104] [32] [107])
      = show_dialog DlgFillRequired (init_window [104] [32] [107])
   \<and> long_polling_thread (connect_to_server (Inr (JObj [])) (init_window [104] [32] [107])) = None"
proof -
  have blank: "py_strip (device_id_input (init_window [104] [32] [107])) = []"
    by (simp add: init_window_def py_strip_def is_space_def)
  from connect_needs_credentials [where w = "init_window [104] [32] [107]" and a = "Inr (JObj [])"]
    blank
  have "connect_to_server (Inr (JObj [])) (init_window [104] [32] [107])
      = show_dialog DlgFillRequired (init_window [104] [32] [107])
    \<and> long_polling_thread (connect_to_server (Inr (JObj [])) (init_window [104] [32] [107]))
      = long_polling_thread (init_window [104] [32] [107])"
    by blast
  with blank show ?thesis by (simp add: init_window_def show_dialog_def)
qed

text \<open>
  C5 as stated fails for \<open>start\<close>: with an empty device id and an empty hardware key it
  enters the loop and posts a heartbeat.
\<close>

theorem start_probes_without_credentials:
  "device_id (new_LowerLongPollingClient [104] [] []) = []
   \<and> hardware_key (new_LowerLongPollingClient [104] [] []) = []
   \<and> sent (exec [Go, Go, Go] (thread_started (new_LowerLongPollingClient [104] [] [])))
       = [(0, Heartbeat, 10)]"
  by (simp add: thread_started_def thread_step_def Go_def new_LowerLongPollingClient_def)

end
